theory Spec2Isabelle
  imports Main "HOL-Library.Multiset" "HOL-Library.Sublist"
begin

section \<open>Data model of \<open>src/main.c\<close>\<close>

text \<open>
  The program is an orchestration of calls into libavformat and libavcodec. The codecs and
  the container reader and writer are not part of the repository: every call into them is
  modelled as a step on a \<open>world\<close> that holds, for each library function, the queue of
  the answers it is going to give (status and output parameters), the memory the program
  shares with the library, and the trace of the calls made so far. The queues are
  arbitrary, so a theorem about every world is a theorem about every behaviour of the
  library in which each call returns and each pull loop is answered a negative status
  after finitely many outputs; a queue that has run empty answers with the library's
  idle answer (end of file, try again, success). Under a library that delivers outputs
  without end the loops of the source do not return; such a library is outside the model.

  C \<open>int\<close> status codes are \<open>int\<close>. The only arithmetic of the program is the
  pre-increment of \<open>stream_count\<close>, bounded by the number of streams of the input.
  The model covers \<open>print_error\<close>, \<open>write_packet\<close>, \<open>encode_frame_and_send\<close>,
  \<open>transcode\<close>, \<open>write_body\<close>, \<open>write_output\<close>, \<open>create_decode_context\<close>,
  \<open>create_encode_context\<close> and \<open>create_streams\<close>.
\<close>

type_synonym AVRational = "int \<times> int"

datatype AVMediaType =
    AVMEDIA_TYPE_UNKNOWN
  | AVMEDIA_TYPE_VIDEO
  | AVMEDIA_TYPE_AUDIO
  | AVMEDIA_TYPE_DATA
  | AVMEDIA_TYPE_SUBTITLE
  | AVMEDIA_TYPE_ATTACHMENT

record AVCodecParameters =
  codec_type :: AVMediaType
  codec_id :: nat

record AVStream =
  codecpar :: AVCodecParameters
  st_time_base :: AVRational

record AVFormatContext =
  streams :: "AVStream list"

record AVPacket =
  stream_index :: int
  pts :: int
  dts :: int
  duration :: int
  data :: "nat list"

record AVFrame =
  frame_pts :: int
  frame_data :: "nat list"

record AVCodecContext =
  width :: int
  height :: int
  sample_aspect_ratio :: AVRational
  pix_fmt :: int
  bit_rate :: int
  time_base :: AVRational

text \<open>An \<open>AVCodec\<close> is identified by a number; an \<open>AVCodecContext *\<close> is an address
  (\<open>nat\<close>), or \<open>None\<close> for the null pointer.\<close>

type_synonym AVCodec = nat

datatype event =
    Ev_printf string
  | Ev_av_read_frame
  | Ev_av_packet_unref
  | Ev_av_frame_unref
  | Ev_av_packet_alloc
  | Ev_av_frame_alloc
  | Ev_av_frame_free
  | Ev_av_packet_free
  | Ev_av_interleaved_write_frame AVPacket
  | Ev_avcodec_send_packet "nat option" "AVPacket option"
  | Ev_avcodec_receive_frame "nat option"
  | Ev_avcodec_send_frame nat "AVFrame option"
  | Ev_avcodec_receive_packet nat
  | Ev_avformat_write_header
  | Ev_av_write_trailer
  | Ev_avcodec_alloc_context3 AVCodec "nat option"
  | Ev_avcodec_free_context "nat option"
  | Ev_avcodec_parameters_to_context nat AVCodecParameters
  | Ev_avcodec_open2 nat AVCodecContext AVCodec
  | Ev_avformat_new_stream "nat option"
  | Ev_avcodec_parameters_from_context nat nat
  | Ev_avcodec_parameters_copy nat AVCodecParameters

record world =
  av_read_frame_q :: "(int \<times> AVPacket) list"
  av_interleaved_write_frame_q :: "int list"
  avformat_write_header_q :: "int list"
  av_write_trailer_q :: "int list"
  avcodec_send_packet_q :: "int list"
  avcodec_receive_frame_q :: "(int \<times> AVFrame) list"
  avcodec_send_frame_q :: "int list"
  avcodec_receive_packet_q :: "(int \<times> AVPacket) list"
  avcodec_alloc_context3_q :: "AVCodecContext option list"
  avcodec_parameters_to_context_q :: "(int \<times> AVCodecContext) list"
  avcodec_open2_q :: "int list"
  avformat_new_stream_q :: "AVStream option list"
  avcodec_parameters_from_context_q :: "(int \<times> AVCodecParameters) list"
  avcodec_parameters_copy_q :: "int list"
  avcodec_find_decoder_tab :: "nat \<Rightarrow> AVCodec option"
  av_guess_frame_rate_tab :: "AVFormatContext \<Rightarrow> AVStream \<Rightarrow> AVRational"
  av_strerror_tab :: "int \<Rightarrow> string"
  av_rescale_ts_tab :: "AVRational \<Rightarrow> AVRational \<Rightarrow> int \<times> int \<times> int \<Rightarrow> int \<times> int \<times> int"
  contexts :: "nat \<Rightarrow> AVCodecContext"
  next_context :: nat
  outfc_streams :: "AVStream list"
  out_stream_indices :: "int list"
  in_codec_contexts :: "nat option list"
  out_codec_contexts :: "nat option list"
  trace :: "event list"

definition log :: "event \<Rightarrow> world \<Rightarrow> world" where
  "log e w = w\<lparr>trace := trace w @ [e]\<rparr>"

section \<open>Constants of the library headers\<close>

text \<open>
  The macros below are declared in the headers of FFmpeg (\<open>libavutil/error.h\<close>,
  \<open>libavutil/avutil.h\<close>, \<open>libavformat/avformat.h\<close>), which are not part of the
  repository; the values are those of the headers on Linux: \<open>AVERROR_EOF\<close> is
  \<open>-MKTAG('E','O','F',' ')\<close>, \<open>AVERROR(EAGAIN)\<close> is \<open>-11\<close>,
  \<open>AVSTREAM_INIT_IN_WRITE_HEADER\<close> is \<open>0\<close>. The proofs use only that the two error
  codes are negative and different.
\<close>

definition AVERROR_EOF :: int where
  "AVERROR_EOF = - 541478725"

definition AVERROR_EAGAIN :: int where
  "AVERROR_EAGAIN = - 11"

definition AVSTREAM_INIT_IN_WRITE_HEADER :: int where
  "AVSTREAM_INIT_IN_WRITE_HEADER = 0"

definition AV_NOPTS_VALUE :: int where
  "AV_NOPTS_VALUE = - (2 ^ 63)"

definition blank_packet :: AVPacket where
  "blank_packet = \<lparr>stream_index = 0, pts = AV_NOPTS_VALUE, dts = AV_NOPTS_VALUE,
     duration = 0, data = []\<rparr>"

definition blank_frame :: AVFrame where
  "blank_frame = \<lparr>frame_pts = AV_NOPTS_VALUE, frame_data = []\<rparr>"

definition blank_context :: AVCodecContext where
  "blank_context = \<lparr>width = 0, height = 0, sample_aspect_ratio = (0, 1), pix_fmt = - 1,
     bit_rate = 0, time_base = (0, 1)\<rparr>"

definition av_inv_q :: "AVRational \<Rightarrow> AVRational" where
  "av_inv_q q = (snd q, fst q)"

section \<open>The library calls of the transcoding phase\<close>

definition av_read_frame :: "world \<Rightarrow> int \<times> AVPacket \<times> world" where
  "av_read_frame w =
     (case av_read_frame_q w of
        [] \<Rightarrow> (AVERROR_EOF, blank_packet, log Ev_av_read_frame w)
      | (r, p) # q \<Rightarrow> (r, p, log Ev_av_read_frame (w\<lparr>av_read_frame_q := q\<rparr>)))"

definition av_packet_unref :: "world \<Rightarrow> world" where
  "av_packet_unref w = log Ev_av_packet_unref w"

definition av_frame_unref :: "world \<Rightarrow> world" where
  "av_frame_unref w = log Ev_av_frame_unref w"

text \<open>The two buffers of \<open>write_body\<close>. The source does not test what
  \<open>av_packet_alloc\<close> and \<open>av_frame_alloc\<close> return; the model takes both allocations
  to succeed.\<close>

definition av_packet_alloc :: "world \<Rightarrow> world" where
  "av_packet_alloc w = log Ev_av_packet_alloc w"

definition av_frame_alloc :: "world \<Rightarrow> world" where
  "av_frame_alloc w = log Ev_av_frame_alloc w"

definition av_frame_free :: "world \<Rightarrow> world" where
  "av_frame_free w = log Ev_av_frame_free w"

definition av_packet_free :: "world \<Rightarrow> world" where
  "av_packet_free w = log Ev_av_packet_free w"

text \<open>\<open>av_packet_rescale_ts\<close> is the library's: by its documentation it converts the
  timing fields of the unit (\<open>pts\<close>, \<open>dts\<close>, \<open>duration\<close>) from one time base to
  another and writes no other field. The conversion itself is a table of the world.\<close>

definition av_packet_rescale_ts :: "world \<Rightarrow> AVPacket \<Rightarrow> AVRational \<Rightarrow> AVRational \<Rightarrow> AVPacket" where
  "av_packet_rescale_ts w p tb_src tb_dst =
     (case av_rescale_ts_tab w tb_src tb_dst (pts p, dts p, duration p) of
        (pts', dts', duration') \<Rightarrow> p\<lparr>pts := pts', dts := dts', duration := duration'\<rparr>)"

definition av_interleaved_write_frame :: "world \<Rightarrow> AVPacket \<Rightarrow> int \<times> world" where
  "av_interleaved_write_frame w p =
     (case av_interleaved_write_frame_q w of
        [] \<Rightarrow> (0, log (Ev_av_interleaved_write_frame p) w)
      | r # q \<Rightarrow> (r, log (Ev_av_interleaved_write_frame p) (w\<lparr>av_interleaved_write_frame_q := q\<rparr>)))"

definition avcodec_send_packet :: "world \<Rightarrow> nat option \<Rightarrow> AVPacket option \<Rightarrow> int \<times> world" where
  "avcodec_send_packet w avctx p =
     (case avcodec_send_packet_q w of
        [] \<Rightarrow> (0, log (Ev_avcodec_send_packet avctx p) w)
      | r # q \<Rightarrow> (r, log (Ev_avcodec_send_packet avctx p) (w\<lparr>avcodec_send_packet_q := q\<rparr>)))"

definition avcodec_receive_frame :: "world \<Rightarrow> nat option \<Rightarrow> int \<times> AVFrame \<times> world" where
  "avcodec_receive_frame w avctx =
     (case avcodec_receive_frame_q w of
        [] \<Rightarrow> (AVERROR_EAGAIN, blank_frame, log (Ev_avcodec_receive_frame avctx) w)
      | (r, f) # q \<Rightarrow> (r, f, log (Ev_avcodec_receive_frame avctx) (w\<lparr>avcodec_receive_frame_q := q\<rparr>)))"

definition avcodec_send_frame :: "world \<Rightarrow> nat \<Rightarrow> AVFrame option \<Rightarrow> int \<times> world" where
  "avcodec_send_frame w avctx f =
     (case avcodec_send_frame_q w of
        [] \<Rightarrow> (0, log (Ev_avcodec_send_frame avctx f) w)
      | r # q \<Rightarrow> (r, log (Ev_avcodec_send_frame avctx f) (w\<lparr>avcodec_send_frame_q := q\<rparr>)))"

definition avcodec_receive_packet :: "world \<Rightarrow> nat \<Rightarrow> int \<times> AVPacket \<times> world" where
  "avcodec_receive_packet w avctx =
     (case avcodec_receive_packet_q w of
        [] \<Rightarrow> (AVERROR_EAGAIN, blank_packet, log (Ev_avcodec_receive_packet avctx) w)
      | (r, p) # q \<Rightarrow> (r, p, log (Ev_avcodec_receive_packet avctx) (w\<lparr>avcodec_receive_packet_q := q\<rparr>)))"

definition avformat_write_header :: "world \<Rightarrow> int \<times> world" where
  "avformat_write_header w =
     (case avformat_write_header_q w of
        [] \<Rightarrow> (0, log Ev_avformat_write_header w)
      | r # q \<Rightarrow> (r, log Ev_avformat_write_header (w\<lparr>avformat_write_header_q := q\<rparr>)))"

definition av_write_trailer :: "world \<Rightarrow> int \<times> world" where
  "av_write_trailer w =
     (case av_write_trailer_q w of
        [] \<Rightarrow> (0, log Ev_av_write_trailer w)
      | r # q \<Rightarrow> (r, log Ev_av_write_trailer (w\<lparr>av_write_trailer_q := q\<rparr>)))"

section \<open>The transcoding phase\<close>

text \<open>\<open>print_error\<close>: the text of \<open>av_strerror\<close> for \<open>errnum\<close> after the description.\<close>

definition print_error :: "world \<Rightarrow> string \<Rightarrow> int \<Rightarrow> world" where
  "print_error w description errnum =
     log (Ev_printf (description @ '': '' @ av_strerror_tab w errnum @ [CHR 0x0A])) w"

definition write_packet :: "world \<Rightarrow> AVPacket \<Rightarrow> AVStream \<Rightarrow> AVStream \<Rightarrow> int \<Rightarrow> int \<times> world" where
  "write_packet w packet in_stream out_stream out_stream_index =
     (case av_interleaved_write_frame w
             (av_packet_rescale_ts w (packet\<lparr>stream_index := out_stream_index\<rparr>)
                (st_time_base in_stream) (st_time_base out_stream)) of
        (reason, w1) \<Rightarrow>
          if reason \<noteq> 0 then (- 1, print_error w1 ''Failed to write frame'' reason)
          else (0, w1))"

lemma write_packet_receive_q [simp]:
  "avcodec_receive_packet_q (snd (write_packet w p i out k)) = avcodec_receive_packet_q w"
  by (simp add: write_packet_def av_interleaved_write_frame_def print_error_def log_def
      split: list.splits)

text \<open>The \<open>for\<close> loop of \<open>encode_frame_and_send\<close> and the test after it; \<open>reason\<close> is
  the variable of that name, which the loop body overwrites.\<close>

function encode_frame_and_send_loop ::
  "world \<Rightarrow> nat \<Rightarrow> AVStream \<Rightarrow> AVStream \<Rightarrow> int \<Rightarrow> int \<Rightarrow> int \<times> world" where
  "encode_frame_and_send_loop w outcc in_stream out_stream out_stream_index reason =
     (case avcodec_receive_packet w outcc of
        (packet_reason, packet, w1) \<Rightarrow>
          if packet_reason \<ge> 0 then
            (case write_packet w1 packet in_stream out_stream out_stream_index of
               (reason', w2) \<Rightarrow>
                 if reason' \<noteq> 0 then (reason', w2)
                 else encode_frame_and_send_loop (av_packet_unref w2) outcc in_stream out_stream
                        out_stream_index reason')
          else if packet_reason \<noteq> AVERROR_EOF \<and> packet_reason \<noteq> AVERROR_EAGAIN then
            (- 1, print_error w1 ''Failed to receive encode packets'' reason)
          else (0, w1))"
  by pat_completeness auto
termination
proof (relation "measure (\<lambda>(w, _). length (avcodec_receive_packet_q w))")
  show "wf (measure (\<lambda>(w, _). length (avcodec_receive_packet_q w)))" by simp
next
  fix w :: world and outcc in_stream out_stream out_stream_index and reason :: int
    and x packet_reason y packet w1 x2 reason' w2
  assume rcv: "(packet_reason, y) = avcodec_receive_packet w outcc" "(packet, w1) = y"
    and ok: "0 \<le> packet_reason"
    and wr: "(reason', w2) = write_packet w1 packet in_stream out_stream out_stream_index"
  from rcv ok have "length (avcodec_receive_packet_q w1) < length (avcodec_receive_packet_q w)"
    by (auto simp: avcodec_receive_packet_def log_def AVERROR_EAGAIN_def split: list.splits)
  moreover have "avcodec_receive_packet_q w2 = avcodec_receive_packet_q w1"
    using write_packet_receive_q [of w1 packet in_stream out_stream out_stream_index] wr [symmetric]
    by simp
  ultimately show "((av_packet_unref w2, outcc, in_stream, out_stream, out_stream_index, reason'),
      (w, outcc, in_stream, out_stream, out_stream_index, reason))
    \<in> measure (\<lambda>(w, _). length (avcodec_receive_packet_q w))"
    by (simp add: av_packet_unref_def log_def)
qed

definition encode_frame_and_send ::
  "world \<Rightarrow> nat \<Rightarrow> AVFrame \<Rightarrow> AVStream \<Rightarrow> AVStream \<Rightarrow> int \<Rightarrow> int \<times> world" where
  "encode_frame_and_send w outcc frame in_stream out_stream out_stream_index =
     (case avcodec_send_frame w outcc (Some frame) of
        (reason, w1) \<Rightarrow>
          if reason \<noteq> 0 then (- 1, print_error w1 ''Failed to send encode frame'' reason)
          else encode_frame_and_send_loop w1 outcc in_stream out_stream out_stream_index reason)"

declare encode_frame_and_send_loop.simps [simp del]

text \<open>What the transcoding phase never writes: the tables of the library, the codec
  contexts, the streams of the output and the three arrays of \<open>create_streams\<close>; with
  them, the queues that bound the enclosing loops.\<close>

definition fixed_part where
  "fixed_part w = (av_strerror_tab w, av_rescale_ts_tab w, contexts w, next_context w,
     outfc_streams w, out_stream_indices w, in_codec_contexts w, out_codec_contexts w)"

definition fixed_read where
  "fixed_read w = (fixed_part w, av_read_frame_q w)"

definition fixed_frames where
  "fixed_frames w = (fixed_read w, avcodec_receive_frame_q w)"

lemma fixed_frames_read: "fixed_frames w' = fixed_frames w \<Longrightarrow> fixed_read w' = fixed_read w"
  by (simp add: fixed_frames_def)

lemma fixed_read_part: "fixed_read w' = fixed_read w \<Longrightarrow> fixed_part w' = fixed_part w"
  by (simp add: fixed_read_def)

lemma fixed_log [simp]:
  "fixed_part (log e w) = fixed_part w"
  "fixed_read (log e w) = fixed_read w"
  "fixed_frames (log e w) = fixed_frames w"
  by (simp_all add: fixed_frames_def fixed_read_def fixed_part_def log_def)

lemma fixed_print_error [simp]:
  "fixed_part (print_error w d e) = fixed_part w"
  "fixed_read (print_error w d e) = fixed_read w"
  "fixed_frames (print_error w d e) = fixed_frames w"
  by (simp_all add: print_error_def)

lemma fixed_unref [simp]:
  "fixed_frames (av_packet_unref w) = fixed_frames w"
  "fixed_read (av_packet_unref w) = fixed_read w"
  "fixed_read (av_frame_unref w) = fixed_read w"
  "fixed_part (av_packet_unref w) = fixed_part w"
  "fixed_part (av_frame_unref w) = fixed_part w"
  by (simp_all add: av_packet_unref_def av_frame_unref_def)

lemma fixed_buffers [simp]:
  "fixed_part (av_packet_alloc w) = fixed_part w"
  "fixed_part (av_frame_alloc w) = fixed_part w"
  "fixed_part (av_frame_free w) = fixed_part w"
  "fixed_part (av_packet_free w) = fixed_part w"
  by (simp_all add: av_packet_alloc_def av_frame_alloc_def av_frame_free_def av_packet_free_def)

lemma av_interleaved_write_frame_fixed:
  "fixed_frames (snd (av_interleaved_write_frame w p)) = fixed_frames w"
  by (simp add: av_interleaved_write_frame_def fixed_frames_def fixed_read_def fixed_part_def
      log_def split: list.splits)

lemma avcodec_receive_packet_fixed:
  "fixed_frames (snd (snd (avcodec_receive_packet w c))) = fixed_frames w"
  by (simp add: avcodec_receive_packet_def fixed_frames_def fixed_read_def fixed_part_def
      log_def split: list.splits prod.splits)

lemma avcodec_send_frame_fixed:
  "fixed_frames (snd (avcodec_send_frame w c f)) = fixed_frames w"
  by (simp add: avcodec_send_frame_def fixed_frames_def fixed_read_def fixed_part_def
      log_def split: list.splits)

lemma avcodec_receive_frame_fixed:
  "fixed_read (snd (snd (avcodec_receive_frame w c))) = fixed_read w"
  by (simp add: avcodec_receive_frame_def fixed_read_def fixed_part_def
      log_def split: list.splits prod.splits)

lemma avcodec_send_packet_fixed:
  "fixed_read (snd (avcodec_send_packet w c p)) = fixed_read w"
  by (simp add: avcodec_send_packet_def fixed_read_def fixed_part_def
      log_def split: list.splits)

lemma av_read_frame_fixed:
  "fixed_part (snd (snd (av_read_frame w))) = fixed_part w"
  by (simp add: av_read_frame_def fixed_part_def log_def split: list.splits prod.splits)

lemma write_packet_fixed:
  "fixed_frames (snd (write_packet w p i out k)) = fixed_frames w"
  using av_interleaved_write_frame_fixed
    [of w "av_packet_rescale_ts w (p\<lparr>stream_index := k\<rparr>) (st_time_base i) (st_time_base out)"]
  by (auto simp: write_packet_def split: prod.splits)

lemma encode_frame_and_send_loop_fixed:
  "fixed_frames (snd (encode_frame_and_send_loop w c i out k r)) = fixed_frames w"
proof (induction w c i out k r rule: encode_frame_and_send_loop.induct)
  case (1 w outcc in_stream out_stream out_stream_index reason)
  obtain pr packet w1 where rcv: "avcodec_receive_packet w outcc = (pr, packet, w1)"
    by (cases "avcodec_receive_packet w outcc") auto
  have w1: "fixed_frames w1 = fixed_frames w"
    using avcodec_receive_packet_fixed [of w outcc] by (simp add: rcv)
  obtain reason' w2 where wr: "write_packet w1 packet in_stream out_stream out_stream_index = (reason', w2)"
    by (cases "write_packet w1 packet in_stream out_stream out_stream_index") auto
  have w2: "fixed_frames w2 = fixed_frames w"
    using write_packet_fixed [of w1 packet in_stream out_stream out_stream_index] wr w1 by simp
  show ?case
  proof (cases "0 \<le> pr \<and> reason' = 0")
    case True
    then have "encode_frame_and_send_loop w outcc in_stream out_stream out_stream_index reason =
        encode_frame_and_send_loop (av_packet_unref w2) outcc in_stream out_stream out_stream_index reason'"
      by (subst encode_frame_and_send_loop.simps) (simp add: rcv wr)
    moreover have "fixed_frames (snd (encode_frame_and_send_loop (av_packet_unref w2) outcc in_stream
          out_stream out_stream_index reason')) = fixed_frames (av_packet_unref w2)"
      using True by (intro "1.IH" [OF rcv [symmetric] refl _ wr [symmetric]]) simp_all
    ultimately show ?thesis using w2 by simp
  next
    case False
    then show ?thesis
      by (subst encode_frame_and_send_loop.simps) (auto simp: rcv wr w1 w2)
  qed
qed

lemma encode_frame_and_send_fixed:
  "fixed_frames (snd (encode_frame_and_send w c f i out k)) = fixed_frames w"
proof -
  obtain r w1 where s: "avcodec_send_frame w c (Some f) = (r, w1)"
    by (cases "avcodec_send_frame w c (Some f)") auto
  have w1: "fixed_frames w1 = fixed_frames w"
    using avcodec_send_frame_fixed [of w c "Some f"] by (simp add: s)
  show ?thesis
    using encode_frame_and_send_loop_fixed [of w1 c i out k r] w1
    by (auto simp: encode_frame_and_send_def s)
qed

text \<open>The \<open>for\<close> loop of \<open>transcode\<close> and the test after it. The result of
  \<open>encode_frame_and_send\<close> is not read (line 64 of the source).\<close>

function transcode_loop ::
  "world \<Rightarrow> nat option \<Rightarrow> nat \<Rightarrow> AVStream \<Rightarrow> AVStream \<Rightarrow> int \<Rightarrow> int \<Rightarrow> int \<times> world" where
  "transcode_loop w incc outcc in_stream out_stream out_stream_index reason =
     (case avcodec_receive_frame w incc of
        (frame_reason, frame, w1) \<Rightarrow>
          if frame_reason \<ge> 0 then
            (case encode_frame_and_send w1 outcc frame in_stream out_stream out_stream_index of
               (_, w2) \<Rightarrow>
                 transcode_loop (av_frame_unref w2) incc outcc in_stream out_stream
                   out_stream_index reason)
          else if frame_reason \<noteq> AVERROR_EOF \<and> frame_reason \<noteq> AVERROR_EAGAIN then
            (- 1, print_error w1 ''Failed to receive decode frames'' reason)
          else (0, w1))"
  by pat_completeness auto
termination
proof (relation "measure (\<lambda>(w, _). length (avcodec_receive_frame_q w))")
  show "wf (measure (\<lambda>(w, _). length (avcodec_receive_frame_q w)))" by simp
next
  fix w :: world and incc outcc in_stream out_stream out_stream_index and reason :: int
    and frame_reason y frame w1 x2 r' w2
  assume rcv: "(frame_reason, y) = avcodec_receive_frame w incc" "(frame, w1) = y"
    and ok: "0 \<le> frame_reason"
    and enc: "(r', w2) = encode_frame_and_send w1 outcc frame in_stream out_stream out_stream_index"
  from rcv ok have "length (avcodec_receive_frame_q w1) < length (avcodec_receive_frame_q w)"
    by (auto simp: avcodec_receive_frame_def log_def AVERROR_EAGAIN_def split: list.splits)
  moreover have "avcodec_receive_frame_q w2 = avcodec_receive_frame_q w1"
    using encode_frame_and_send_fixed [of w1 outcc frame in_stream out_stream out_stream_index]
      enc [symmetric] by (simp add: fixed_frames_def)
  ultimately show "((av_frame_unref w2, incc, outcc, in_stream, out_stream, out_stream_index, reason),
      (w, incc, outcc, in_stream, out_stream, out_stream_index, reason))
    \<in> measure (\<lambda>(w, _). length (avcodec_receive_frame_q w))"
    by (simp add: av_frame_unref_def log_def)
qed

declare transcode_loop.simps [simp del]

definition transcode ::
  "world \<Rightarrow> nat option \<Rightarrow> nat \<Rightarrow> AVPacket \<Rightarrow> AVStream \<Rightarrow> AVStream \<Rightarrow> int \<Rightarrow> int \<times> world" where
  "transcode w incc outcc packet in_stream out_stream out_stream_index =
     (case avcodec_send_packet w incc (Some packet) of
        (reason, w1) \<Rightarrow>
          if reason \<noteq> 0 then (- 1, print_error w1 ''Failed to send decode packet'' reason)
          else transcode_loop (av_packet_unref w1) incc outcc in_stream out_stream
                 out_stream_index reason)"

lemma transcode_loop_fixed:
  "fixed_read (snd (transcode_loop w ic oc i out k r)) = fixed_read w"
proof (induction w ic oc i out k r rule: transcode_loop.induct)
  case (1 w incc outcc in_stream out_stream out_stream_index reason)
  obtain fr frame w1 where rcv: "avcodec_receive_frame w incc = (fr, frame, w1)"
    by (cases "avcodec_receive_frame w incc") auto
  have w1: "fixed_read w1 = fixed_read w"
    using avcodec_receive_frame_fixed [of w incc] by (simp add: rcv)
  obtain r' w2 where enc:
    "encode_frame_and_send w1 outcc frame in_stream out_stream out_stream_index = (r', w2)"
    by (cases "encode_frame_and_send w1 outcc frame in_stream out_stream out_stream_index") auto
  have w2: "fixed_read w2 = fixed_read w"
    using encode_frame_and_send_fixed [of w1 outcc frame in_stream out_stream out_stream_index]
      enc w1 by (simp add: fixed_frames_def)
  show ?case
  proof (cases "0 \<le> fr")
    case True
    then have "transcode_loop w incc outcc in_stream out_stream out_stream_index reason =
        transcode_loop (av_frame_unref w2) incc outcc in_stream out_stream out_stream_index reason"
      by (subst transcode_loop.simps) (simp add: rcv enc)
    moreover have "fixed_read (snd (transcode_loop (av_frame_unref w2) incc outcc in_stream
          out_stream out_stream_index reason)) = fixed_read (av_frame_unref w2)"
      using True by (intro "1.IH" [OF rcv [symmetric] refl _ enc [symmetric]]) simp_all
    ultimately show ?thesis using w2 by simp
  next
    case False
    then show ?thesis
      by (subst transcode_loop.simps) (auto simp: rcv w1)
  qed
qed

lemma transcode_fixed:
  "fixed_read (snd (transcode w ic oc p i out k)) = fixed_read w"
proof -
  obtain r w1 where s: "avcodec_send_packet w ic (Some p) = (r, w1)"
    by (cases "avcodec_send_packet w ic (Some p)") auto
  have w1: "fixed_read w1 = fixed_read w"
    using avcodec_send_packet_fixed [of w ic "Some p"] by (simp add: s)
  show ?thesis
    using transcode_loop_fixed [of "av_packet_unref w1" ic oc i out k r] w1
    by (auto simp: transcode_def s)
qed

text \<open>A read of a C array through an index: \<open>None\<close> where the index is outside the
  array, which is undefined behaviour in C and ends the run of the model.\<close>

definition array_read :: "'a list \<Rightarrow> int \<Rightarrow> 'a option" where
  "array_read xs i = (if 0 \<le> i \<and> i < int (length xs) then Some (xs ! nat i) else None)"

text \<open>
  The body of the \<open>while\<close> loop of \<open>write_body\<close> for the unit just read, with the
  contents of the buffers \<open>packet\<close> and \<open>frame\<close> passed by value. It ends in
  \<open>continue\<close> or at the end of the body (\<open>Continue\<close>), in
  \<open>goto end\<close> with \<open>result\<close> set (\<open>Goto_end\<close>), or in a read outside an array
  (\<open>Out_of_bounds\<close>).
\<close>

datatype loop_exit = Continue | Goto_end int | Out_of_bounds

definition write_body_iteration :: "world \<Rightarrow> AVFormatContext \<Rightarrow> AVPacket \<Rightarrow> loop_exit \<times> world" where
  "write_body_iteration w infc packet =
     (case array_read (out_stream_indices w) (stream_index packet) of
        None \<Rightarrow> (Out_of_bounds, w)
      | Some out_stream_index \<Rightarrow>
          if out_stream_index = - 1 then (Continue, av_packet_unref w)
          else
            (case array_read (streams infc) (stream_index packet) of
               None \<Rightarrow> (Out_of_bounds, w)
             | Some in_stream \<Rightarrow>
            (case array_read (outfc_streams w) out_stream_index of
               None \<Rightarrow> (Out_of_bounds, w)
             | Some out_stream \<Rightarrow>
            (case array_read (out_codec_contexts w) (stream_index packet) of
               None \<Rightarrow> (Out_of_bounds, w)
             | Some (Some outcc) \<Rightarrow>
                 (case array_read (in_codec_contexts w) (stream_index packet) of
                    None \<Rightarrow> (Out_of_bounds, w)
                  | Some incc \<Rightarrow>
                      (case transcode w incc outcc packet in_stream out_stream out_stream_index of
                         (reason, w2) \<Rightarrow>
                           if reason \<noteq> 0 then (Goto_end reason, w2) else (Continue, w2)))
             | Some None \<Rightarrow>
                 (case write_packet w packet in_stream out_stream out_stream_index of
                    (reason, w2) \<Rightarrow>
                      if reason \<noteq> 0 then (Goto_end reason, w2)
                      else (Continue, av_packet_unref w2))))))"

lemma transcode_fixedD:
  "transcode w ic oc p i out k = (r, w') \<Longrightarrow> fixed_read w' = fixed_read w"
  using transcode_fixed [of w ic oc p i out k] by simp

lemma write_packet_fixedD:
  "write_packet w p i out k = (r, w') \<Longrightarrow> fixed_read w' = fixed_read w"
  using write_packet_fixed [of w p i out k] by (simp add: fixed_frames_def)

lemma write_body_iteration_fixed:
  "fixed_read (snd (write_body_iteration w infc p)) = fixed_read w"
  by (auto simp: write_body_iteration_def split: option.splits prod.splits
      dest: transcode_fixedD write_packet_fixedD)

text \<open>The \<open>while\<close> loop of \<open>write_body\<close>. The result is \<open>Some result\<close>, or
  \<open>None\<close> when an array was read outside its bounds.\<close>

function write_body_loop :: "world \<Rightarrow> AVFormatContext \<Rightarrow> int option \<times> world" where
  "write_body_loop w infc =
     (case av_read_frame w of
        (r, packet, w1) \<Rightarrow>
          if r \<ge> 0 then
            (case write_body_iteration w1 infc packet of
               (Continue, w2) \<Rightarrow> write_body_loop w2 infc
             | (Goto_end result, w2) \<Rightarrow> (Some result, w2)
             | (Out_of_bounds, w2) \<Rightarrow> (None, w2))
          else (Some 0, w1))"
  by pat_completeness auto
termination
proof (relation "measure (\<lambda>(w, _). length (av_read_frame_q w))")
  show "wf (measure (\<lambda>(w, _). length (av_read_frame_q w)))" by simp
next
  fix w :: world and infc :: AVFormatContext and r y packet w1 x w2
  assume rd: "(r, y) = av_read_frame w" "(packet, w1) = y" and ok: "0 \<le> r"
    and it: "(x, w2) = write_body_iteration w1 infc packet"
  from rd ok have "length (av_read_frame_q w1) < length (av_read_frame_q w)"
    by (auto simp: av_read_frame_def log_def AVERROR_EOF_def split: list.splits)
  moreover have "av_read_frame_q w2 = av_read_frame_q w1"
    using write_body_iteration_fixed [of w1 infc packet] it [symmetric]
    by (simp add: fixed_read_def)
  ultimately show "((w2, infc), (w, infc)) \<in> measure (\<lambda>(w, _). length (av_read_frame_q w))"
    by simp
qed

declare write_body_loop.simps [simp del]

text \<open>\<open>write_body\<close>: the two buffers are allocated before the loop and released at the
  label \<open>end\<close>, which the loop reaches when \<open>av_read_frame\<close> delivers no further unit
  and at \<open>goto end\<close>.\<close>

definition write_body :: "world \<Rightarrow> AVFormatContext \<Rightarrow> int option \<times> world" where
  "write_body w infc =
     (case write_body_loop (av_frame_alloc (av_packet_alloc w)) infc of
        (None, w1) \<Rightarrow> (None, w1)
      | (Some result, w1) \<Rightarrow> (Some result, av_packet_free (av_frame_free w1)))"

text \<open>\<open>write_output\<close>; a run that left the arrays in \<open>write_body\<close> has no result.\<close>

definition write_output :: "world \<Rightarrow> AVFormatContext \<Rightarrow> int option \<times> world" where
  "write_output w infc =
     (case avformat_write_header w of
        (reason, w1) \<Rightarrow>
          if reason \<noteq> AVSTREAM_INIT_IN_WRITE_HEADER then
            (Some (- 1), print_error w1 ''Failed to write header to output file'' reason)
          else
            (case write_body w1 infc of
               (None, w2) \<Rightarrow> (None, w2)
             | (Some reason, w2) \<Rightarrow>
                 if reason \<noteq> 0 then (Some reason, w2)
                 else
                   (case av_write_trailer w2 of
                      (reason, w3) \<Rightarrow>
                        if reason \<noteq> 0 then
                          (Some (- 1), print_error w3 ''Failed to write trailer'' reason)
                        else (Some 0, w3))))"

section \<open>The library calls of the set-up phase\<close>

text \<open>
  \<open>avcodec_alloc_context3\<close> answers with the contents of a context at a new address, or
  with the null pointer. \<open>avcodec_free_context\<close> is called with the address of a
  pointer; the model passes the pointer found there, and the caller's model clears it, as
  the library does. Called on the null pointer it does nothing. The fields of a context
  that the model tracks are written by \<open>avcodec_parameters_to_context\<close> and by the
  program, and not by \<open>avcodec_open2\<close>. A stream of the output is named by its index
  in \<open>outfc_streams\<close>.
\<close>

definition printf :: "world \<Rightarrow> string \<Rightarrow> world" where
  "printf w s = log (Ev_printf s) w"

definition avcodec_find_decoder :: "world \<Rightarrow> nat \<Rightarrow> AVCodec option" where
  "avcodec_find_decoder w cid = avcodec_find_decoder_tab w cid"

definition av_guess_frame_rate :: "world \<Rightarrow> AVFormatContext \<Rightarrow> AVStream \<Rightarrow> AVRational" where
  "av_guess_frame_rate w format st = av_guess_frame_rate_tab w format st"

definition new_context :: "world \<Rightarrow> AVCodec \<Rightarrow> AVCodecContext \<Rightarrow> nat option \<times> world" where
  "new_context w codec c =
     (Some (next_context w),
      log (Ev_avcodec_alloc_context3 codec (Some (next_context w)))
        (w\<lparr>contexts := (contexts w)(next_context w := c),
           next_context := Suc (next_context w)\<rparr>))"

definition avcodec_alloc_context3 :: "world \<Rightarrow> AVCodec \<Rightarrow> nat option \<times> world" where
  "avcodec_alloc_context3 w codec =
     (case avcodec_alloc_context3_q w of
        [] \<Rightarrow> new_context w codec blank_context
      | None # q \<Rightarrow>
          (None, log (Ev_avcodec_alloc_context3 codec None) (w\<lparr>avcodec_alloc_context3_q := q\<rparr>))
      | Some c # q \<Rightarrow> new_context (w\<lparr>avcodec_alloc_context3_q := q\<rparr>) codec c)"

definition avcodec_free_context :: "world \<Rightarrow> nat option \<Rightarrow> world" where
  "avcodec_free_context w avctx = log (Ev_avcodec_free_context avctx) w"

definition avcodec_parameters_to_context ::
  "world \<Rightarrow> nat \<Rightarrow> AVCodecParameters \<Rightarrow> int \<times> world" where
  "avcodec_parameters_to_context w codec par =
     (case avcodec_parameters_to_context_q w of
        [] \<Rightarrow> (0, log (Ev_avcodec_parameters_to_context codec par) w)
      | (r, c) # q \<Rightarrow>
          (r, log (Ev_avcodec_parameters_to_context codec par)
                (w\<lparr>avcodec_parameters_to_context_q := q,
                   contexts := (contexts w)(codec := c)\<rparr>)))"

definition avcodec_open2 :: "world \<Rightarrow> nat \<Rightarrow> AVCodec \<Rightarrow> int \<times> world" where
  "avcodec_open2 w avctx codec =
     (case avcodec_open2_q w of
        [] \<Rightarrow> (0, log (Ev_avcodec_open2 avctx (contexts w avctx) codec) w)
      | r # q \<Rightarrow>
          (r, log (Ev_avcodec_open2 avctx (contexts w avctx) codec) (w\<lparr>avcodec_open2_q := q\<rparr>)))"

definition blank_stream :: AVStream where
  "blank_stream = \<lparr>codecpar = \<lparr>codec_type = AVMEDIA_TYPE_UNKNOWN, codec_id = 0\<rparr>,
     st_time_base = (0, 1)\<rparr>"

definition new_stream :: "world \<Rightarrow> AVStream \<Rightarrow> nat option \<times> world" where
  "new_stream w st =
     (Some (length (outfc_streams w)),
      log (Ev_avformat_new_stream (Some (length (outfc_streams w))))
        (w\<lparr>outfc_streams := outfc_streams w @ [st]\<rparr>))"

definition avformat_new_stream :: "world \<Rightarrow> nat option \<times> world" where
  "avformat_new_stream w =
     (case avformat_new_stream_q w of
        [] \<Rightarrow> new_stream w blank_stream
      | None # q \<Rightarrow> (None, log (Ev_avformat_new_stream None) (w\<lparr>avformat_new_stream_q := q\<rparr>))
      | Some st # q \<Rightarrow> new_stream (w\<lparr>avformat_new_stream_q := q\<rparr>) st)"

definition avcodec_parameters_from_context :: "world \<Rightarrow> nat \<Rightarrow> nat \<Rightarrow> int \<times> world" where
  "avcodec_parameters_from_context w out_stream codec =
     (case avcodec_parameters_from_context_q w of
        [] \<Rightarrow> (0, log (Ev_avcodec_parameters_from_context out_stream codec) w)
      | (r, par) # q \<Rightarrow>
          (r, log (Ev_avcodec_parameters_from_context out_stream codec)
                (w\<lparr>avcodec_parameters_from_context_q := q,
                   outfc_streams := (outfc_streams w)
                     [out_stream := (outfc_streams w ! out_stream)\<lparr>codecpar := par\<rparr>]\<rparr>)))"

definition avcodec_parameters_copy :: "world \<Rightarrow> nat \<Rightarrow> AVCodecParameters \<Rightarrow> int \<times> world" where
  "avcodec_parameters_copy w out_stream src =
     (case avcodec_parameters_copy_q w of
        [] \<Rightarrow>
          (0, log (Ev_avcodec_parameters_copy out_stream src)
                (w\<lparr>outfc_streams := (outfc_streams w)
                     [out_stream := (outfc_streams w ! out_stream)\<lparr>codecpar := src\<rparr>]\<rparr>))
      | r # q \<Rightarrow>
          (r, log (Ev_avcodec_parameters_copy out_stream src)
                (if r = 0
                 then w\<lparr>avcodec_parameters_copy_q := q,
                        outfc_streams := (outfc_streams w)
                          [out_stream := (outfc_streams w ! out_stream)\<lparr>codecpar := src\<rparr>]\<rparr>
                 else w\<lparr>avcodec_parameters_copy_q := q\<rparr>)))"

section \<open>The set-up phase\<close>

definition create_decode_context ::
  "world \<Rightarrow> AVCodec \<Rightarrow> AVCodecParameters \<Rightarrow> nat option \<times> world" where
  "create_decode_context w in_codec in_parameters =
     (case avcodec_alloc_context3 w in_codec of
        (None, w1) \<Rightarrow>
          (None, printf w1 (''Failed to allocate memory for input in_stream codec context'' @
                   [CHR 0x0A]))
      | (Some incc, w1) \<Rightarrow>
          (case avcodec_parameters_to_context w1 incc in_parameters of
             (reason, w2) \<Rightarrow>
               if reason \<noteq> 0 then
                 (None, avcodec_free_context
                          (print_error w2 ''Failed to copy parameters to context'' reason)
                          (Some incc))
               else
                 (case avcodec_open2 w2 incc in_codec of
                    (reason, w3) \<Rightarrow>
                      if reason \<noteq> 0 then
                        (None, avcodec_free_context
                                 (print_error w3 ''Failed to open input codec context'' reason)
                                 (Some incc))
                      else (Some incc, w3))))"

text \<open>Lines 172 to 179 of \<open>create_encode_context\<close>: the six assignments to the
  fields of the context at \<open>outcc\<close>, in the order of the source.\<close>

definition assign_encode_fields ::
  "world \<Rightarrow> nat \<Rightarrow> nat \<Rightarrow> AVFormatContext \<Rightarrow> AVStream \<Rightarrow> world" where
  "assign_encode_fields w1 outcc incc infc in_stream =
     (let w2 = w1\<lparr>contexts := (contexts w1)(outcc := (contexts w1 outcc)\<lparr>width := width (contexts w1 incc)\<rparr>)\<rparr>;
          w3 = w2\<lparr>contexts := (contexts w2)(outcc := (contexts w2 outcc)\<lparr>height := height (contexts w2 incc)\<rparr>)\<rparr>;
          w4 = w3\<lparr>contexts := (contexts w3)(outcc := (contexts w3 outcc)
                 \<lparr>sample_aspect_ratio := sample_aspect_ratio (contexts w3 incc)\<rparr>)\<rparr>;
          w5 = w4\<lparr>contexts := (contexts w4)(outcc := (contexts w4 outcc)\<lparr>pix_fmt := pix_fmt (contexts w4 incc)\<rparr>)\<rparr>;
          w6 = w5\<lparr>contexts := (contexts w5)(outcc := (contexts w5 outcc)\<lparr>bit_rate := bit_rate (contexts w5 incc)\<rparr>)\<rparr>;
          frame_rate = av_guess_frame_rate w6 infc in_stream
      in w6\<lparr>contexts := (contexts w6)(outcc := (contexts w6 outcc)\<lparr>time_base := av_inv_q frame_rate\<rparr>)\<rparr>)"

definition create_encode_context ::
  "world \<Rightarrow> AVCodec \<Rightarrow> nat \<Rightarrow> AVFormatContext \<Rightarrow> AVStream \<Rightarrow> nat option \<times> world" where
  "create_encode_context w out_codec incc infc in_stream =
     (case avcodec_alloc_context3 w out_codec of
        (None, w1) \<Rightarrow>
          (None, printf w1 (''Failed to allocate memory for output in_stream codec context'' @
                   [CHR 0x0A]))
      | (Some outcc, w1) \<Rightarrow>
          (case avcodec_open2 (assign_encode_fields w1 outcc incc infc in_stream) outcc out_codec of
             (reason, w8) \<Rightarrow>
               if reason \<noteq> 0 then
                 (None, avcodec_free_context
                          (print_error w8 ''Failed to open output codec context'' reason)
                          (Some outcc))
               else (Some outcc, w8)))"

text \<open>
  The body of the \<open>for\<close> loop of \<open>create_streams\<close> for stream \<open>i\<close>: the result is
  \<open>True\<close> at \<open>continue\<close> and at the end of the body, \<open>False\<close> at \<open>goto failure\<close>,
  with the value of \<open>stream_count\<close>. The two tests of the codec type for video (lines
  203 and 229) are one branch here, so that the local \<open>outcc\<close>, which the source leaves
  unset for an audio stream, is read only where it is set. The arrays are written at
  index \<open>i\<close>; the caller allocates them with one entry for each stream of the input.
\<close>

definition create_streams_iteration ::
  "world \<Rightarrow> AVFormatContext \<Rightarrow> AVCodec \<Rightarrow> nat \<Rightarrow> int \<Rightarrow> bool \<times> int \<times> world" where
  "create_streams_iteration w infc out_codec i stream_count =
     (let in_stream = streams infc ! i; in_parameters = codecpar in_stream in
      if codec_type in_parameters \<noteq> AVMEDIA_TYPE_AUDIO \<and>
         codec_type in_parameters \<noteq> AVMEDIA_TYPE_VIDEO then
        (True, stream_count, w\<lparr>out_stream_indices := (out_stream_indices w)[i := - 1]\<rparr>)
      else if codec_type in_parameters = AVMEDIA_TYPE_VIDEO then
        (case avcodec_find_decoder w (codec_id in_parameters) of
           None \<Rightarrow> (False, stream_count, printf w (''Failed to find decoder'' @ [CHR 0x0A]))
         | Some in_codec \<Rightarrow>
        (case create_decode_context w in_codec in_parameters of
           (None, w1) \<Rightarrow> (False, stream_count, w1)
         | (Some incc, w1) \<Rightarrow>
        (case create_encode_context
                (w1\<lparr>in_codec_contexts := (in_codec_contexts w1)[i := Some incc]\<rparr>)
                out_codec incc infc in_stream of
           (None, w2) \<Rightarrow> (False, stream_count, w2)
         | (Some outcc, w2) \<Rightarrow>
        (case avformat_new_stream
                (w2\<lparr>out_codec_contexts := (out_codec_contexts w2)[i := Some outcc]\<rparr>) of
           (None, w3) \<Rightarrow>
             (False, stream_count, printf w3 (''Failed to create output in_stream'' @ [CHR 0x0A]))
         | (Some out_stream, w3) \<Rightarrow>
        (case avcodec_parameters_from_context w3 out_stream outcc of
           (reason, w4) \<Rightarrow>
             if reason \<noteq> 0 then
               (False, stream_count,
                print_error w4
                  (''Failed to copy codec parameters from codec context to output in_stream'' @
                     [CHR 0x0A]) reason)
             else
               (True, stream_count + 1,
                w4\<lparr>outfc_streams := (outfc_streams w4)
                      [out_stream := (outfc_streams w4 ! out_stream)
                         \<lparr>st_time_base := time_base (contexts w4 outcc)\<rparr>],
                    out_stream_indices := (out_stream_indices w4)[i := stream_count + 1]\<rparr>))))))
      else
        (case avformat_new_stream w of
           (None, w3) \<Rightarrow>
             (False, stream_count, printf w3 (''Failed to create output in_stream'' @ [CHR 0x0A]))
         | (Some out_stream, w3) \<Rightarrow>
        (case avcodec_parameters_copy w3 out_stream in_parameters of
           (reason, w4) \<Rightarrow>
             if reason \<noteq> 0 then
               (False, stream_count,
                print_error w4
                  (''Failed to copy codec parameters to output in_stream'' @ [CHR 0x0A]) reason)
             else
               (True, stream_count + 1,
                w4\<lparr>out_stream_indices := (out_stream_indices w4)[i := stream_count + 1]\<rparr>))))"

function create_streams_loop ::
  "world \<Rightarrow> AVFormatContext \<Rightarrow> AVCodec \<Rightarrow> nat \<Rightarrow> int \<Rightarrow> bool \<times> world" where
  "create_streams_loop w infc out_codec i stream_count =
     (if i < length (streams infc) then
        (case create_streams_iteration w infc out_codec i stream_count of
           (True, stream_count', w') \<Rightarrow> create_streams_loop w' infc out_codec (Suc i) stream_count'
         | (False, _, w') \<Rightarrow> (False, w'))
      else (True, w))"
  by pat_completeness auto
termination
  by (relation "measure (\<lambda>(w, infc, out_codec, i, stream_count). length (streams infc) - i)") auto

declare create_streams_loop.simps [simp del]

text \<open>The loop at the label \<open>failure\<close>.\<close>

definition free_contexts_at :: "world \<Rightarrow> nat \<Rightarrow> world" where
  "free_contexts_at w i =
     (let w1 = (avcodec_free_context w (in_codec_contexts w ! i))
                 \<lparr>in_codec_contexts := (in_codec_contexts w)[i := None]\<rparr>
      in (avcodec_free_context w1 (out_codec_contexts w1 ! i))
           \<lparr>out_codec_contexts := (out_codec_contexts w1)[i := None]\<rparr>)"

definition create_streams_failure :: "world \<Rightarrow> AVFormatContext \<Rightarrow> world" where
  "create_streams_failure w infc = foldl free_contexts_at w [0..<length (streams infc)]"

definition create_streams :: "world \<Rightarrow> AVFormatContext \<Rightarrow> AVCodec \<Rightarrow> int \<times> world" where
  "create_streams w infc out_codec =
     (case create_streams_loop w infc out_codec 0 (- 1) of
        (True, w') \<Rightarrow> (0, w')
      | (False, w') \<Rightarrow> (- 1, create_streams_failure w' infc))"

lemmas setup_defs =
  printf_def avcodec_find_decoder_def av_guess_frame_rate_def new_context_def
  avcodec_alloc_context3_def avcodec_free_context_def avcodec_parameters_to_context_def
  avcodec_open2_def new_stream_def avformat_new_stream_def avcodec_parameters_from_context_def
  avcodec_parameters_copy_def create_decode_context_def assign_encode_fields_def
  create_encode_context_def
  create_streams_iteration_def create_streams_loop.simps free_contexts_at_def
  create_streams_failure_def create_streams_def print_error_def log_def av_inv_q_def

section \<open>Concrete worlds\<close>

text \<open>A world in which every queue is empty: each call gives its idle answer. The decoding
  table of \<open>av_strerror\<close> holds the texts of the library for the two codes used below.\<close>

definition idle_world :: world where
  "idle_world = \<lparr>
     av_read_frame_q = [],
     av_interleaved_write_frame_q = [],
     avformat_write_header_q = [],
     av_write_trailer_q = [],
     avcodec_send_packet_q = [],
     avcodec_receive_frame_q = [],
     avcodec_send_frame_q = [],
     avcodec_receive_packet_q = [],
     avcodec_alloc_context3_q = [],
     avcodec_parameters_to_context_q = [],
     avcodec_open2_q = [],
     avformat_new_stream_q = [],
     avcodec_parameters_from_context_q = [],
     avcodec_parameters_copy_q = [],
     avcodec_find_decoder_tab = (\<lambda>_. None),
     av_guess_frame_rate_tab = (\<lambda>_ _. (0, 1)),
     av_strerror_tab = (\<lambda>e. if e = 0 then ''Success''
                            else if e = - 22 then ''Invalid argument'' else ''Error''),
     av_rescale_ts_tab = (\<lambda>_ _ t. t),
     contexts = (\<lambda>_. blank_context),
     next_context = 0,
     outfc_streams = [],
     out_stream_indices = [],
     in_codec_contexts = [],
     out_codec_contexts = [],
     trace = []\<rparr>"

definition video_stream :: AVStream where
  "video_stream = \<lparr>codecpar = \<lparr>codec_type = AVMEDIA_TYPE_VIDEO, codec_id = 27\<rparr>,
     st_time_base = (1, 90000)\<rparr>"

definition audio_stream :: AVStream where
  "audio_stream = \<lparr>codecpar = \<lparr>codec_type = AVMEDIA_TYPE_AUDIO, codec_id = 86018\<rparr>,
     st_time_base = (1, 48000)\<rparr>"

definition subtitle_stream :: AVStream where
  "subtitle_stream = \<lparr>codecpar = \<lparr>codec_type = AVMEDIA_TYPE_SUBTITLE, codec_id = 94213\<rparr>,
     st_time_base = (1, 1000)\<rparr>"

definition unit_of :: "int \<Rightarrow> int \<Rightarrow> nat list \<Rightarrow> AVPacket" where
  "unit_of si t bytes = \<lparr>stream_index = si, pts = t, dts = t, duration = 1, data = bytes\<rparr>"

definition frame_of :: "int \<Rightarrow> nat list \<Rightarrow> AVFrame" where
  "frame_of t bytes = \<lparr>frame_pts = t, frame_data = bytes\<rparr>"

lemmas call_defs =
  av_read_frame_def av_packet_unref_def av_frame_unref_def av_packet_rescale_ts_def
  av_interleaved_write_frame_def avcodec_send_packet_def avcodec_receive_frame_def
  avcodec_send_frame_def avcodec_receive_packet_def avformat_write_header_def
  av_write_trailer_def print_error_def log_def array_read_def
  av_packet_alloc_def av_frame_alloc_def av_frame_free_def av_packet_free_def
  AVERROR_EOF_def AVERROR_EAGAIN_def AVSTREAM_INIT_IN_WRITE_HEADER_def

lemmas run_defs =
  write_packet_def encode_frame_and_send_loop.simps encode_frame_and_send_def
  transcode_loop.simps transcode_def write_body_iteration_def write_body_loop.simps
  write_body_def write_output_def

section \<open>The calls made by the transcoding phase\<close>

text \<open>\<open>new_events w w'\<close>: what a run from \<open>w\<close> to \<open>w'\<close> added to the trace.
  \<open>extends P w w'\<close>: the run kept the trace it found and added only events in \<open>P\<close>.\<close>

definition new_events :: "world \<Rightarrow> world \<Rightarrow> event list" where
  "new_events w w' = drop (length (trace w)) (trace w')"

definition extends :: "(event \<Rightarrow> bool) \<Rightarrow> world \<Rightarrow> world \<Rightarrow> bool" where
  "extends P w w' \<longleftrightarrow>
     take (length (trace w)) (trace w') = trace w \<and> list_all P (new_events w w')"

text \<open>The calls of \<open>write_body\<close>: reads, writes, allocations and releases of the
  buffers, diagnostics, and submissions to and pulls from the codecs that carry a unit or a
  frame. A submission of the null pointer (the end-of-stream signal of \<open>avcodec_send_packet\<close> and
  \<open>avcodec_send_frame\<close>) is not among them.\<close>

fun body_event :: "event \<Rightarrow> bool" where
  "body_event (Ev_printf _) = True"
| "body_event Ev_av_read_frame = True"
| "body_event Ev_av_packet_unref = True"
| "body_event Ev_av_frame_unref = True"
| "body_event Ev_av_packet_alloc = True"
| "body_event Ev_av_frame_alloc = True"
| "body_event Ev_av_frame_free = True"
| "body_event Ev_av_packet_free = True"
| "body_event (Ev_av_interleaved_write_frame _) = True"
| "body_event (Ev_avcodec_send_packet _ (Some _)) = True"
| "body_event (Ev_avcodec_receive_frame _) = True"
| "body_event (Ev_avcodec_send_frame _ (Some _)) = True"
| "body_event (Ev_avcodec_receive_packet _) = True"
| "body_event _ = False"


lemma extendsI: "trace w' = trace w @ evs \<Longrightarrow> list_all P evs \<Longrightarrow> extends P w w'"
  by (simp add: extends_def new_events_def)

lemma extendsD: "extends P w w' \<Longrightarrow> trace w' = trace w @ new_events w w'"
  unfolding extends_def new_events_def
  by (metis append_take_drop_id)

lemma extends_refl [simp]: "extends P w w"
  by (simp add: extends_def new_events_def)

lemma extends_trans: "extends P w w1 \<Longrightarrow> extends P w1 w2 \<Longrightarrow> extends P w w2"
proof -
  assume a: "extends P w w1" and b: "extends P w1 w2"
  have "trace w2 = trace w @ (new_events w w1 @ new_events w1 w2)"
    using extendsD [OF a] extendsD [OF b] by simp
  moreover have "list_all P (new_events w w1 @ new_events w1 w2)"
    using a b by (simp add: extends_def)
  ultimately show ?thesis by (rule extendsI)
qed

lemma new_events_eq: "trace w' = trace w @ evs \<Longrightarrow> new_events w w' = evs"
  by (simp add: new_events_def)


lemma extends_log: "P e \<Longrightarrow> extends P w (log e w)"
  by (simp add: extends_def new_events_def log_def)

lemma new_events_log [simp]: "new_events w (log e w) = [e]"
  by (simp add: new_events_def log_def)

lemma extends_print_error [simp]: "extends body_event w (print_error w d e)"
  by (simp add: print_error_def extends_log)

lemma extends_unref [simp]:
  "extends body_event w (av_packet_unref w)" "extends body_event w (av_frame_unref w)"
  by (simp_all add: av_packet_unref_def av_frame_unref_def extends_log)

lemma extends_buffers [simp]:
  "extends body_event w (av_packet_alloc w)" "extends body_event w (av_frame_alloc w)"
  "extends body_event w (av_frame_free w)" "extends body_event w (av_packet_free w)"
  by (simp_all add: av_packet_alloc_def av_frame_alloc_def av_frame_free_def av_packet_free_def
      extends_log)

lemma av_interleaved_write_frame_extends:
  "extends body_event w (snd (av_interleaved_write_frame w p))"
  by (simp add: av_interleaved_write_frame_def extends_def new_events_def log_def
      split: list.splits)

lemma avcodec_receive_packet_extends:
  "extends body_event w (snd (snd (avcodec_receive_packet w c)))"
  by (simp add: avcodec_receive_packet_def extends_def new_events_def log_def
      split: list.splits prod.splits)

lemma avcodec_send_frame_extends:
  "extends body_event w (snd (avcodec_send_frame w c (Some f)))"
  by (simp add: avcodec_send_frame_def extends_def new_events_def log_def split: list.splits)

lemma avcodec_receive_frame_extends:
  "extends body_event w (snd (snd (avcodec_receive_frame w c)))"
  by (simp add: avcodec_receive_frame_def extends_def new_events_def log_def
      split: list.splits prod.splits)

lemma avcodec_send_packet_extends:
  "extends body_event w (snd (avcodec_send_packet w c (Some p)))"
  by (simp add: avcodec_send_packet_def extends_def new_events_def log_def split: list.splits)

lemma av_read_frame_extends:
  "extends body_event w (snd (snd (av_read_frame w)))"
  by (simp add: av_read_frame_def extends_def new_events_def log_def
      split: list.splits prod.splits)

lemma write_packet_extends:
  "extends body_event w (snd (write_packet w p i out k))"
proof -
  let ?p = "av_packet_rescale_ts w (p\<lparr>stream_index := k\<rparr>) (st_time_base i) (st_time_base out)"
  obtain r w1 where s: "av_interleaved_write_frame w ?p = (r, w1)"
    by (cases "av_interleaved_write_frame w ?p") auto
  have "extends body_event w w1"
    using av_interleaved_write_frame_extends [of w ?p] by (simp add: s)
  moreover have "extends body_event w1 (print_error w1 ''Failed to write frame'' r)" by simp
  ultimately show ?thesis
    by (auto simp: write_packet_def s intro: extends_trans)
qed

lemma encode_frame_and_send_loop_extends:
  "extends body_event w (snd (encode_frame_and_send_loop w c i out k r))"
proof (induction w c i out k r rule: encode_frame_and_send_loop.induct)
  case (1 w outcc in_stream out_stream out_stream_index reason)
  obtain pr packet w1 where rcv: "avcodec_receive_packet w outcc = (pr, packet, w1)"
    by (cases "avcodec_receive_packet w outcc") auto
  have w1: "extends body_event w w1"
    using avcodec_receive_packet_extends [of w outcc] by (simp add: rcv)
  obtain reason' w2 where wr: "write_packet w1 packet in_stream out_stream out_stream_index = (reason', w2)"
    by (cases "write_packet w1 packet in_stream out_stream out_stream_index") auto
  have w2: "extends body_event w w2"
    using write_packet_extends [of w1 packet in_stream out_stream out_stream_index] wr w1
    by (auto intro: extends_trans)
  show ?case
  proof (cases "0 \<le> pr \<and> reason' = 0")
    case True
    then have "encode_frame_and_send_loop w outcc in_stream out_stream out_stream_index reason =
        encode_frame_and_send_loop (av_packet_unref w2) outcc in_stream out_stream out_stream_index reason'"
      by (subst encode_frame_and_send_loop.simps) (simp add: rcv wr)
    moreover have "extends body_event (av_packet_unref w2)
        (snd (encode_frame_and_send_loop (av_packet_unref w2) outcc in_stream
          out_stream out_stream_index reason'))"
      using True by (intro "1.IH" [OF rcv [symmetric] refl _ wr [symmetric]]) simp_all
    moreover have "extends body_event w (av_packet_unref w2)"
      using w2 extends_unref(1) [of w2] by (rule extends_trans)
    ultimately show ?thesis by (auto intro: extends_trans)
  next
    case False
    have "extends body_event w (print_error w1 ''Failed to receive encode packets'' reason)"
      using w1 extends_print_error by (rule extends_trans)
    with False show ?thesis
      by (subst encode_frame_and_send_loop.simps) (auto simp: rcv wr w1 w2)
  qed
qed

lemma encode_frame_and_send_extends:
  "extends body_event w (snd (encode_frame_and_send w c f i out k))"
proof -
  obtain r w1 where s: "avcodec_send_frame w c (Some f) = (r, w1)"
    by (cases "avcodec_send_frame w c (Some f)") auto
  have w1: "extends body_event w w1"
    using avcodec_send_frame_extends [of w c f] by (simp add: s)
  have "extends body_event w (print_error w1 ''Failed to send encode frame'' r)"
    using w1 extends_print_error by (rule extends_trans)
  moreover have "extends body_event w (snd (encode_frame_and_send_loop w1 c i out k r))"
    using w1 encode_frame_and_send_loop_extends by (rule extends_trans)
  ultimately show ?thesis
    by (auto simp: encode_frame_and_send_def s)
qed

lemma transcode_loop_extends:
  "extends body_event w (snd (transcode_loop w ic oc i out k r))"
proof (induction w ic oc i out k r rule: transcode_loop.induct)
  case (1 w incc outcc in_stream out_stream out_stream_index reason)
  obtain fr frame w1 where rcv: "avcodec_receive_frame w incc = (fr, frame, w1)"
    by (cases "avcodec_receive_frame w incc") auto
  have w1: "extends body_event w w1"
    using avcodec_receive_frame_extends [of w incc] by (simp add: rcv)
  obtain r' w2 where enc:
    "encode_frame_and_send w1 outcc frame in_stream out_stream out_stream_index = (r', w2)"
    by (cases "encode_frame_and_send w1 outcc frame in_stream out_stream out_stream_index") auto
  have w2: "extends body_event w w2"
    using encode_frame_and_send_extends [of w1 outcc frame in_stream out_stream out_stream_index]
      enc w1 by (auto intro: extends_trans)
  show ?case
  proof (cases "0 \<le> fr")
    case True
    then have "transcode_loop w incc outcc in_stream out_stream out_stream_index reason =
        transcode_loop (av_frame_unref w2) incc outcc in_stream out_stream out_stream_index reason"
      by (subst transcode_loop.simps) (simp add: rcv enc)
    moreover have "extends body_event (av_frame_unref w2)
        (snd (transcode_loop (av_frame_unref w2) incc outcc in_stream
          out_stream out_stream_index reason))"
      using True by (intro "1.IH" [OF rcv [symmetric] refl _ enc [symmetric]]) simp_all
    moreover have "extends body_event w (av_frame_unref w2)"
      using w2 extends_unref(2) [of w2] by (rule extends_trans)
    ultimately show ?thesis by (auto intro: extends_trans)
  next
    case False
    have "extends body_event w (print_error w1 ''Failed to receive decode frames'' reason)"
      using w1 extends_print_error by (rule extends_trans)
    with False show ?thesis
      by (subst transcode_loop.simps) (auto simp: rcv w1)
  qed
qed

lemma transcode_extends:
  "extends body_event w (snd (transcode w ic oc p i out k))"
proof -
  obtain r w1 where s: "avcodec_send_packet w ic (Some p) = (r, w1)"
    by (cases "avcodec_send_packet w ic (Some p)") auto
  have w1: "extends body_event w w1"
    using avcodec_send_packet_extends [of w ic p] by (simp add: s)
  have "extends body_event w (print_error w1 ''Failed to send decode packet'' r)"
    using w1 extends_print_error by (rule extends_trans)
  moreover have "extends body_event w (av_packet_unref w1)"
    using w1 extends_unref(1) by (rule extends_trans)
  then have "extends body_event w (snd (transcode_loop (av_packet_unref w1) ic oc i out k r))"
    using transcode_loop_extends by (rule extends_trans)
  ultimately show ?thesis
    by (auto simp: transcode_def s)
qed

lemma transcode_extendsD:
  "transcode w ic oc p i out k = (r, w') \<Longrightarrow> extends body_event w w'"
  using transcode_extends [of w ic oc p i out k] by simp

lemma write_packet_extendsD:
  "write_packet w p i out k = (r, w') \<Longrightarrow> extends body_event w w'"
  using write_packet_extends [of w p i out k] by simp

lemma write_body_iteration_extends:
  "extends body_event w (snd (write_body_iteration w infc p))"
proof -
  have "extends body_event w (av_packet_unref w')" if "write_packet w p i out k = (r, w')"
    for i out k r w'
    using write_packet_extendsD [OF that] extends_unref(1) by (rule extends_trans)
  then show ?thesis
    by (auto simp: write_body_iteration_def split: option.splits prod.splits
        dest: transcode_extendsD write_packet_extendsD)
qed

lemma write_body_loop_extends:
  "extends body_event w (snd (write_body_loop w infc))"
proof (induction w infc rule: write_body_loop.induct)
  case (1 w infc)
  obtain r packet w1 where r: "av_read_frame w = (r, packet, w1)"
    by (cases "av_read_frame w") auto
  have w1: "extends body_event w w1"
    using av_read_frame_extends [of w] by (simp add: r)
  obtain x w2 where it: "write_body_iteration w1 infc packet = (x, w2)"
    by (cases "write_body_iteration w1 infc packet") auto
  have w2: "extends body_event w w2"
    using w1 write_body_iteration_extends [of w1 infc packet] unfolding it snd_conv
    by (rule extends_trans)
  show ?case
  proof (cases "0 \<le> r \<and> x = Continue")
    case True
    then have "write_body_loop w infc = write_body_loop w2 infc"
      by (subst write_body_loop.simps) (simp add: r it)
    moreover have "extends body_event w2 (snd (write_body_loop w2 infc))"
      using True by (intro "1.IH" [OF r [symmetric] refl _ it [symmetric]]) simp_all
    ultimately show ?thesis using w2 by (auto intro: extends_trans)
  next
    case False
    then show ?thesis
      by (subst write_body_loop.simps) (auto simp: r it w1 w2 split: loop_exit.splits)
  qed
qed

lemma write_body_loop_fixed:
  "fixed_part (snd (write_body_loop w infc)) = fixed_part w"
proof (induction w infc rule: write_body_loop.induct)
  case (1 w infc)
  obtain r packet w1 where r: "av_read_frame w = (r, packet, w1)"
    by (cases "av_read_frame w") auto
  have w1: "fixed_part w1 = fixed_part w"
    using av_read_frame_fixed [of w] by (simp add: r)
  obtain x w2 where it: "write_body_iteration w1 infc packet = (x, w2)"
    by (cases "write_body_iteration w1 infc packet") auto
  have w2: "fixed_part w2 = fixed_part w"
    using w1 write_body_iteration_fixed [of w1 infc packet] unfolding it snd_conv
    by (simp add: fixed_read_def)
  show ?case
  proof (cases "0 \<le> r \<and> x = Continue")
    case True
    then have "write_body_loop w infc = write_body_loop w2 infc"
      by (subst write_body_loop.simps) (simp add: r it)
    moreover have "fixed_part (snd (write_body_loop w2 infc)) = fixed_part w2"
      using True by (intro "1.IH" [OF r [symmetric] refl _ it [symmetric]]) simp_all
    ultimately show ?thesis using w2 by simp
  next
    case False
    then show ?thesis
      by (subst write_body_loop.simps) (auto simp: r it w1 w2 split: loop_exit.splits)
  qed
qed


lemma write_body_extends: "extends body_event w (snd (write_body w infc))"
proof -
  let ?w0 = "av_frame_alloc (av_packet_alloc w)"
  obtain r w1 where lp: "write_body_loop ?w0 infc = (r, w1)"
    by (cases "write_body_loop ?w0 infc") auto
  have "extends body_event w ?w0"
    using extends_buffers(1) extends_buffers(2) by (rule extends_trans)
  then have w1: "extends body_event w w1"
    using write_body_loop_extends [of ?w0 infc] unfolding lp snd_conv by (rule extends_trans)
  then have "extends body_event w (av_frame_free w1)"
    using extends_buffers(3) by (rule extends_trans)
  then have "extends body_event w (av_packet_free (av_frame_free w1))"
    using extends_buffers(4) by (rule extends_trans)
  then show ?thesis
    using w1 by (simp add: write_body_def lp split: option.splits)
qed

lemma write_body_fixed: "fixed_part (snd (write_body w infc)) = fixed_part w"
proof -
  let ?w0 = "av_frame_alloc (av_packet_alloc w)"
  obtain r w1 where lp: "write_body_loop ?w0 infc = (r, w1)"
    by (cases "write_body_loop ?w0 infc") auto
  have "fixed_part w1 = fixed_part w"
    using write_body_loop_fixed [of ?w0 infc] unfolding lp snd_conv by simp
  then show ?thesis
    by (simp add: write_body_def lp split: option.splits)
qed


section \<open>The statuses that end a pull loop\<close>

text \<open>\<open>pull_end d q\<close> is the status that ends a pull loop over the answers \<open>q\<close>: the
  first negative one (\<open>d\<close>, the idle answer, when the queue holds none), and
  \<open>pulled q\<close> is the number of outputs delivered before it.\<close>

fun pull_end :: "int \<Rightarrow> (int \<times> 'a) list \<Rightarrow> int" where
  "pull_end d [] = d"
| "pull_end d ((r, x) # q) = (if 0 \<le> r then pull_end d q else r)"

fun pulled :: "(int \<times> 'a) list \<Rightarrow> nat" where
  "pulled [] = 0"
| "pulled ((r, x) # q) = (if 0 \<le> r then Suc (pulled q) else 0)"

definition loop_result :: "int \<Rightarrow> int" where
  "loop_result r = (if r = AVERROR_EOF \<or> r = AVERROR_EAGAIN then 0 else - 1)"

lemma avcodec_receive_frame_cases:
  obtains (idle) "avcodec_receive_frame_q w = []"
      "avcodec_receive_frame w c = (AVERROR_EAGAIN, blank_frame, log (Ev_avcodec_receive_frame c) w)"
  | (answer) r f q where "avcodec_receive_frame_q w = (r, f) # q"
      "avcodec_receive_frame w c =
         (r, f, log (Ev_avcodec_receive_frame c) (w\<lparr>avcodec_receive_frame_q := q\<rparr>))"
  by (cases "avcodec_receive_frame_q w") (auto simp: avcodec_receive_frame_def)

lemma avcodec_receive_packet_cases:
  obtains (idle) "avcodec_receive_packet_q w = []"
      "avcodec_receive_packet w c = (AVERROR_EAGAIN, blank_packet, log (Ev_avcodec_receive_packet c) w)"
  | (answer) r p q where "avcodec_receive_packet_q w = (r, p) # q"
      "avcodec_receive_packet w c =
         (r, p, log (Ev_avcodec_receive_packet c) (w\<lparr>avcodec_receive_packet_q := q\<rparr>))"
  by (cases "avcodec_receive_packet_q w") (auto simp: avcodec_receive_packet_def)

lemma transcode_loop_result:
  "fst (transcode_loop w ic oc i out k reason) =
     loop_result (pull_end AVERROR_EAGAIN (avcodec_receive_frame_q w))"
proof (induction w ic oc i out k reason rule: transcode_loop.induct)
  case (1 w incc outcc in_stream out_stream out_stream_index reason)
  show ?case
  proof (cases rule: avcodec_receive_frame_cases [of w incc])
    case idle
    then show ?thesis
      by (subst transcode_loop.simps) (simp add: loop_result_def AVERROR_EAGAIN_def)
  next
    case (answer fr frame q)
    let ?w1 = "log (Ev_avcodec_receive_frame incc) (w\<lparr>avcodec_receive_frame_q := q\<rparr>)"
    obtain r' w2 where enc:
      "encode_frame_and_send ?w1 outcc frame in_stream out_stream out_stream_index = (r', w2)"
      by (cases "encode_frame_and_send ?w1 outcc frame in_stream out_stream out_stream_index") auto
    have q2: "avcodec_receive_frame_q (av_frame_unref w2) = q"
      using encode_frame_and_send_fixed [of ?w1 outcc frame in_stream out_stream out_stream_index]
      unfolding enc snd_conv
      by (simp add: fixed_frames_def av_frame_unref_def log_def)
    show ?thesis
    proof (cases "0 \<le> fr")
      case True
      then have "transcode_loop w incc outcc in_stream out_stream out_stream_index reason =
          transcode_loop (av_frame_unref w2) incc outcc in_stream out_stream out_stream_index reason"
        by (subst transcode_loop.simps) (simp add: answer enc)
      moreover have "fst (transcode_loop (av_frame_unref w2) incc outcc in_stream out_stream
            out_stream_index reason) =
          loop_result (pull_end AVERROR_EAGAIN (avcodec_receive_frame_q (av_frame_unref w2)))"
        using True by (intro "1.IH" [OF answer(2) [symmetric] refl _ enc [symmetric]]) simp_all
      ultimately show ?thesis using True by (simp add: q2 answer(1))
    next
      case False
      then show ?thesis
        by (subst transcode_loop.simps) (simp add: answer loop_result_def)
    qed
  qed
qed

text \<open>\<open>writes_accepted w\<close>: the writer accepts every unit the encoder delivers before the
  pull loop ends.\<close>

definition writes_accepted :: "world \<Rightarrow> bool" where
  "writes_accepted w \<longleftrightarrow>
     list_all (\<lambda>s. s = 0)
       (take (pulled (avcodec_receive_packet_q w)) (av_interleaved_write_frame_q w))"

lemma write_packet_queues:
  "av_interleaved_write_frame_q (snd (write_packet w p i out k)) = tl (av_interleaved_write_frame_q w)"
  "fst (write_packet w p i out k) =
     (case av_interleaved_write_frame_q w of [] \<Rightarrow> 0 | s # _ \<Rightarrow> if s \<noteq> 0 then - 1 else 0)"
  by (simp_all add: write_packet_def av_interleaved_write_frame_def print_error_def log_def
      split: list.splits)

lemma encode_frame_and_send_loop_result:
  "fst (encode_frame_and_send_loop w c i out k reason) =
     (if writes_accepted w
      then loop_result (pull_end AVERROR_EAGAIN (avcodec_receive_packet_q w)) else - 1)"
proof (induction w c i out k reason rule: encode_frame_and_send_loop.induct)
  case (1 w outcc in_stream out_stream out_stream_index reason)
  show ?case
  proof (cases rule: avcodec_receive_packet_cases [of w outcc])
    case idle
    then show ?thesis
      by (subst encode_frame_and_send_loop.simps)
        (simp add: loop_result_def AVERROR_EAGAIN_def writes_accepted_def)
  next
    case (answer pr packet q)
    let ?w1 = "log (Ev_avcodec_receive_packet outcc) (w\<lparr>avcodec_receive_packet_q := q\<rparr>)"
    obtain reason' w2 where wr:
      "write_packet ?w1 packet in_stream out_stream out_stream_index = (reason', w2)"
      by (cases "write_packet ?w1 packet in_stream out_stream out_stream_index") auto
    have qs: "av_interleaved_write_frame_q (av_packet_unref w2) = tl (av_interleaved_write_frame_q w)"
      "avcodec_receive_packet_q (av_packet_unref w2) = q"
      using write_packet_queues(1) [of ?w1 packet in_stream out_stream out_stream_index]
        write_packet_receive_q [of ?w1 packet in_stream out_stream out_stream_index]
      unfolding wr snd_conv
      by (simp_all add: av_packet_unref_def log_def)
    have r': "reason' = (case av_interleaved_write_frame_q w of [] \<Rightarrow> 0
        | s # _ \<Rightarrow> if s \<noteq> 0 then - 1 else 0)"
      using write_packet_queues(2) [of ?w1 packet in_stream out_stream out_stream_index]
      unfolding wr fst_conv
      by (simp add: log_def)
    show ?thesis
    proof (cases "0 \<le> pr")
      case False
      then show ?thesis
        by (subst encode_frame_and_send_loop.simps)
          (simp add: answer loop_result_def writes_accepted_def)
    next
      case True
      show ?thesis
      proof (cases "reason' = 0")
        case False
        then have "\<not> writes_accepted w"
          using r' True by (auto simp: writes_accepted_def answer(1) split: list.splits if_splits)
        moreover have "reason' = - 1"
          using r' False by (auto split: list.splits if_splits)
        ultimately show ?thesis
          using True by (subst encode_frame_and_send_loop.simps) (simp add: answer wr)
      next
        case ok: True
        have acc: "writes_accepted (av_packet_unref w2) = writes_accepted w"
          using r' ok True
          by (auto simp: writes_accepted_def qs answer(1) split: list.splits if_splits)
        have "encode_frame_and_send_loop w outcc in_stream out_stream out_stream_index reason =
            encode_frame_and_send_loop (av_packet_unref w2) outcc in_stream out_stream
              out_stream_index reason'"
          using True ok by (subst encode_frame_and_send_loop.simps) (simp add: answer wr)
        moreover have "fst (encode_frame_and_send_loop (av_packet_unref w2) outcc in_stream
              out_stream out_stream_index reason') =
            (if writes_accepted (av_packet_unref w2)
             then loop_result (pull_end AVERROR_EAGAIN (avcodec_receive_packet_q (av_packet_unref w2)))
             else - 1)"
          using True ok by (intro "1.IH" [OF answer(2) [symmetric] refl _ wr [symmetric]]) simp_all
        ultimately show ?thesis using True by (simp add: acc qs answer(1))
      qed
    qed
  qed
qed

lemma avcodec_send_packet_receive_q:
  "avcodec_receive_frame_q (snd (avcodec_send_packet w c p)) = avcodec_receive_frame_q w"
  by (simp add: avcodec_send_packet_def log_def split: list.splits)

lemma avcodec_send_frame_queues:
  "avcodec_receive_packet_q (snd (avcodec_send_frame w c f)) = avcodec_receive_packet_q w"
  "av_interleaved_write_frame_q (snd (avcodec_send_frame w c f)) = av_interleaved_write_frame_q w"
  by (simp_all add: avcodec_send_frame_def log_def split: list.splits)

lemma transcode_result:
  "fst (transcode w incc outcc p i out k) =
     (if fst (avcodec_send_packet w incc (Some p)) \<noteq> 0 then - 1
      else loop_result (pull_end AVERROR_EAGAIN (avcodec_receive_frame_q w)))"
proof -
  obtain r w1 where s: "avcodec_send_packet w incc (Some p) = (r, w1)"
    by (cases "avcodec_send_packet w incc (Some p)") auto
  have "avcodec_receive_frame_q (av_packet_unref w1) = avcodec_receive_frame_q w"
    using avcodec_send_packet_receive_q [of w incc "Some p"] unfolding s snd_conv
    by (simp add: av_packet_unref_def log_def)
  then show ?thesis
    using transcode_loop_result [of "av_packet_unref w1" incc outcc i out k r]
    by (auto simp: transcode_def s)
qed

lemma encode_frame_and_send_result:
  "fst (encode_frame_and_send w outcc f i out k) =
     (if fst (avcodec_send_frame w outcc (Some f)) \<noteq> 0 then - 1
      else if writes_accepted w
      then loop_result (pull_end AVERROR_EAGAIN (avcodec_receive_packet_q w)) else - 1)"
proof -
  obtain r w1 where s: "avcodec_send_frame w outcc (Some f) = (r, w1)"
    by (cases "avcodec_send_frame w outcc (Some f)") auto
  have "avcodec_receive_packet_q w1 = avcodec_receive_packet_q w"
    "av_interleaved_write_frame_q w1 = av_interleaved_write_frame_q w"
    using avcodec_send_frame_queues [of w outcc "Some f"] unfolding s snd_conv by simp_all
  then have "writes_accepted w1 = writes_accepted w"
    "avcodec_receive_packet_q w1 = avcodec_receive_packet_q w"
    by (simp_all add: writes_accepted_def)
  then show ?thesis
    using encode_frame_and_send_loop_result [of w1 outcc i out k r]
    by (auto simp: encode_frame_and_send_def s)
qed

text \<open>The pull loops stop at the status that ends them: the answers behind it stay in
  the queue.\<close>

lemma transcode_loop_rest:
  "avcodec_receive_frame_q (snd (transcode_loop w ic oc i out k reason)) =
     drop (Suc (pulled (avcodec_receive_frame_q w))) (avcodec_receive_frame_q w)"
proof (induction w ic oc i out k reason rule: transcode_loop.induct)
  case (1 w incc outcc in_stream out_stream out_stream_index reason)
  show ?case
  proof (cases rule: avcodec_receive_frame_cases [of w incc])
    case idle
    then show ?thesis
      by (subst transcode_loop.simps) (simp add: AVERROR_EAGAIN_def AVERROR_EOF_def log_def)
  next
    case (answer fr frame q)
    let ?w1 = "log (Ev_avcodec_receive_frame incc) (w\<lparr>avcodec_receive_frame_q := q\<rparr>)"
    obtain r' w2 where enc:
      "encode_frame_and_send ?w1 outcc frame in_stream out_stream out_stream_index = (r', w2)"
      by (cases "encode_frame_and_send ?w1 outcc frame in_stream out_stream out_stream_index") auto
    have q2: "avcodec_receive_frame_q (av_frame_unref w2) = q"
      using encode_frame_and_send_fixed [of ?w1 outcc frame in_stream out_stream out_stream_index]
      unfolding enc snd_conv
      by (simp add: fixed_frames_def av_frame_unref_def log_def)
    show ?thesis
    proof (cases "0 \<le> fr")
      case True
      then have "transcode_loop w incc outcc in_stream out_stream out_stream_index reason =
          transcode_loop (av_frame_unref w2) incc outcc in_stream out_stream out_stream_index reason"
        by (subst transcode_loop.simps) (simp add: answer enc)
      moreover have "avcodec_receive_frame_q (snd (transcode_loop (av_frame_unref w2) incc outcc
            in_stream out_stream out_stream_index reason)) =
          drop (Suc (pulled (avcodec_receive_frame_q (av_frame_unref w2))))
            (avcodec_receive_frame_q (av_frame_unref w2))"
        using True by (intro "1.IH" [OF answer(2) [symmetric] refl _ enc [symmetric]]) simp_all
      ultimately show ?thesis using True by (simp add: q2 answer(1))
    next
      case False
      then show ?thesis
        by (subst transcode_loop.simps) (simp add: answer print_error_def log_def)
    qed
  qed
qed

lemma encode_frame_and_send_loop_rest:
  "writes_accepted w \<Longrightarrow>
   avcodec_receive_packet_q (snd (encode_frame_and_send_loop w c i out k reason)) =
     drop (Suc (pulled (avcodec_receive_packet_q w))) (avcodec_receive_packet_q w)"
proof (induction w c i out k reason rule: encode_frame_and_send_loop.induct)
  case (1 w outcc in_stream out_stream out_stream_index reason)
  show ?case
  proof (cases rule: avcodec_receive_packet_cases [of w outcc])
    case idle
    then show ?thesis
      by (subst encode_frame_and_send_loop.simps)
        (simp add: AVERROR_EAGAIN_def AVERROR_EOF_def log_def)
  next
    case (answer pr packet q)
    let ?w1 = "log (Ev_avcodec_receive_packet outcc) (w\<lparr>avcodec_receive_packet_q := q\<rparr>)"
    obtain reason' w2 where wr:
      "write_packet ?w1 packet in_stream out_stream out_stream_index = (reason', w2)"
      by (cases "write_packet ?w1 packet in_stream out_stream out_stream_index") auto
    have qs: "av_interleaved_write_frame_q (av_packet_unref w2) = tl (av_interleaved_write_frame_q w)"
      "avcodec_receive_packet_q (av_packet_unref w2) = q"
      using write_packet_queues(1) [of ?w1 packet in_stream out_stream out_stream_index]
        write_packet_receive_q [of ?w1 packet in_stream out_stream out_stream_index]
      unfolding wr snd_conv
      by (simp_all add: av_packet_unref_def log_def)
    have r': "reason' = (case av_interleaved_write_frame_q w of [] \<Rightarrow> 0
        | s # _ \<Rightarrow> if s \<noteq> 0 then - 1 else 0)"
      using write_packet_queues(2) [of ?w1 packet in_stream out_stream out_stream_index]
      unfolding wr fst_conv
      by (simp add: log_def)
    show ?thesis
    proof (cases "0 \<le> pr")
      case False
      then show ?thesis
        by (subst encode_frame_and_send_loop.simps) (simp add: answer print_error_def log_def)
    next
      case True
      have ok: "reason' = 0"
        using r' True "1.prems"
        by (auto simp: writes_accepted_def answer(1) split: list.splits if_splits)
      have acc: "writes_accepted (av_packet_unref w2)"
        using r' ok True "1.prems"
        by (auto simp: writes_accepted_def qs answer(1) split: list.splits if_splits)
      have "encode_frame_and_send_loop w outcc in_stream out_stream out_stream_index reason =
          encode_frame_and_send_loop (av_packet_unref w2) outcc in_stream out_stream
            out_stream_index reason'"
        using True ok by (subst encode_frame_and_send_loop.simps) (simp add: answer wr)
      moreover have "avcodec_receive_packet_q (snd (encode_frame_and_send_loop (av_packet_unref w2)
            outcc in_stream out_stream out_stream_index reason')) =
          drop (Suc (pulled (avcodec_receive_packet_q (av_packet_unref w2))))
            (avcodec_receive_packet_q (av_packet_unref w2))"
        using True ok acc
        by (intro "1.IH" [OF answer(2) [symmetric] refl _ wr [symmetric]]) simp_all
      ultimately show ?thesis using True by (simp add: qs answer(1))
    qed
  qed
qed

lemma transcode_rest:
  "fst (avcodec_send_packet w incc (Some p)) = 0 \<Longrightarrow>
   avcodec_receive_frame_q (snd (transcode w incc outcc p i out k)) =
     drop (Suc (pulled (avcodec_receive_frame_q w))) (avcodec_receive_frame_q w)"
proof -
  assume z: "fst (avcodec_send_packet w incc (Some p)) = 0"
  obtain r w1 where s: "avcodec_send_packet w incc (Some p) = (r, w1)"
    by (cases "avcodec_send_packet w incc (Some p)") auto
  have "avcodec_receive_frame_q (av_packet_unref w1) = avcodec_receive_frame_q w"
    using avcodec_send_packet_receive_q [of w incc "Some p"] unfolding s snd_conv
    by (simp add: av_packet_unref_def log_def)
  then show ?thesis
    using transcode_loop_rest [of "av_packet_unref w1" incc outcc i out k r] z
    by (auto simp: transcode_def s)
qed

lemma encode_frame_and_send_rest:
  "fst (avcodec_send_frame w outcc (Some f)) = 0 \<and> writes_accepted w \<Longrightarrow>
   avcodec_receive_packet_q (snd (encode_frame_and_send w outcc f i out k)) =
     drop (Suc (pulled (avcodec_receive_packet_q w))) (avcodec_receive_packet_q w)"
proof -
  assume z: "fst (avcodec_send_frame w outcc (Some f)) = 0 \<and> writes_accepted w"
  obtain r w1 where s: "avcodec_send_frame w outcc (Some f) = (r, w1)"
    by (cases "avcodec_send_frame w outcc (Some f)") auto
  have "avcodec_receive_packet_q w1 = avcodec_receive_packet_q w"
    "av_interleaved_write_frame_q w1 = av_interleaved_write_frame_q w"
    using avcodec_send_frame_queues [of w outcc "Some f"] unfolding s snd_conv by simp_all
  then have "writes_accepted w1 = writes_accepted w"
    "avcodec_receive_packet_q w1 = avcodec_receive_packet_q w"
    by (simp_all add: writes_accepted_def)
  then show ?thesis
    using encode_frame_and_send_loop_rest [of w1 outcc i out k r] z
    by (auto simp: encode_frame_and_send_def s)
qed

section \<open>What is submitted to the codecs\<close>

text \<open>The units submitted to a decoder and the frames submitted to an encoder by the
  calls of a trace, in the order of the calls; \<open>None\<close> is the null pointer, the
  end-of-stream signal.\<close>

fun sent_packet :: "event \<Rightarrow> AVPacket option list" where
  "sent_packet (Ev_avcodec_send_packet _ p) = [p]"
| "sent_packet _ = []"

fun sent_frame :: "event \<Rightarrow> AVFrame option list" where
  "sent_frame (Ev_avcodec_send_frame _ f) = [f]"
| "sent_frame _ = []"

definition decoder_submissions :: "event list \<Rightarrow> AVPacket option list" where
  "decoder_submissions evs = concat (map sent_packet evs)"

definition encoder_submissions :: "event list \<Rightarrow> AVFrame option list" where
  "encoder_submissions evs = concat (map sent_frame evs)"

definition submissions :: "world \<Rightarrow> AVPacket option list \<times> AVFrame option list" where
  "submissions w = (decoder_submissions (trace w), encoder_submissions (trace w))"



lemmas submissions_defs =
  submissions_def decoder_submissions_def encoder_submissions_def log_def



lemma submissions_calls [simp]:
  "submissions (print_error w d e) = submissions w"
  "submissions (av_packet_unref w) = submissions w"
  "submissions (av_frame_unref w) = submissions w"
  "submissions (av_packet_alloc w) = submissions w"
  "submissions (av_frame_alloc w) = submissions w"
  "submissions (av_frame_free w) = submissions w"
  "submissions (av_packet_free w) = submissions w"
  by (simp_all add: print_error_def av_packet_unref_def av_frame_unref_def av_packet_alloc_def
      av_frame_alloc_def av_frame_free_def av_packet_free_def submissions_defs)

lemma receive_frame_q_calls [simp]:
  "avcodec_receive_frame_q (print_error w d e) = avcodec_receive_frame_q w"
  "avcodec_receive_frame_q (av_packet_unref w) = avcodec_receive_frame_q w"
  "avcodec_receive_frame_q (av_frame_unref w) = avcodec_receive_frame_q w"
  "avcodec_receive_frame_q (av_packet_alloc w) = avcodec_receive_frame_q w"
  "avcodec_receive_frame_q (av_frame_alloc w) = avcodec_receive_frame_q w"
  "avcodec_receive_frame_q (av_frame_free w) = avcodec_receive_frame_q w"
  "avcodec_receive_frame_q (av_packet_free w) = avcodec_receive_frame_q w"
  by (simp_all add: print_error_def av_packet_unref_def av_frame_unref_def av_packet_alloc_def
      av_frame_alloc_def av_frame_free_def av_packet_free_def log_def)



















section \<open>Claims about the transcoding phase\<close>

subsection \<open>C1: a failure of the encoder inside \<open>transcode\<close>\<close>

definition w_c1 :: world where
  "w_c1 = idle_world\<lparr>
     avcodec_receive_frame_q := [(0, frame_of 0 [1]), (0, frame_of 1 [2])],
     avcodec_send_frame_q := [- 22, 0],
     avcodec_receive_packet_q := [(0, unit_of 0 0 [9])]\<rparr>"

text \<open>
  C1 says that a frame the encoder rejects, or any fatal error while its output units are
  encoded or written, makes \<open>transcode\<close> return a nonzero result and stop. The source
  calls \<open>encode_frame_and_send\<close> at line 64 and does not read its result, while
  \<open>encode_frame_and_send\<close> itself reads the result of \<open>write_packet\<close> and
  \<open>write_body\<close> reads the results of \<open>transcode\<close> and \<open>write_packet\<close>.
  In the run below the decoder delivers two frames and the encoder rejects the first
  with status \<open>-22\<close>: the diagnostic is printed, the second frame is pulled, encoded
  and written, and \<open>transcode\<close> returns 0.
\<close>

theorem transcode_ignores_encoder_failure:
  "fst (transcode w_c1 (Some 0) 1 (unit_of 0 0 [7]) video_stream video_stream 0) = 0 \<and>
   trace (snd (transcode w_c1 (Some 0) 1 (unit_of 0 0 [7]) video_stream video_stream 0)) =
     [Ev_avcodec_send_packet (Some 0) (Some (unit_of 0 0 [7])),
      Ev_av_packet_unref,
      Ev_avcodec_receive_frame (Some 0),
      Ev_avcodec_send_frame 1 (Some (frame_of 0 [1])),
      Ev_printf (''Failed to send encode frame: Invalid argument'' @ [CHR 0x0A]),
      Ev_av_frame_unref,
      Ev_avcodec_receive_frame (Some 0),
      Ev_avcodec_send_frame 1 (Some (frame_of 1 [2])),
      Ev_avcodec_receive_packet 1,
      Ev_av_interleaved_write_frame (unit_of 0 0 [9]),
      Ev_av_packet_unref,
      Ev_avcodec_receive_packet 1,
      Ev_av_frame_unref,
      Ev_avcodec_receive_frame (Some 0)]"
  by (simp add: w_c1_def idle_world_def unit_of_def frame_of_def video_stream_def
      call_defs run_defs)

subsection \<open>C5: the statuses that end a pull loop\<close>

text \<open>\<open>avcodec_receive_frame\<close> and \<open>avcodec_receive_packet\<close> return 0 when they
  deliver an output and a negative \<open>AVERROR\<close> code otherwise. For a queue of such
  answers, \<open>first_nonzero d q\<close> is the first status that is not 0 (\<open>d\<close>, the idle
  answer, when the queue holds none) and \<open>after_first_nonzero q\<close> are the answers that
  follow it.\<close>

fun first_nonzero :: "int \<Rightarrow> (int \<times> 'a) list \<Rightarrow> int" where
  "first_nonzero d [] = d"
| "first_nonzero d ((r, x) # q) = (if r = 0 then first_nonzero d q else r)"

fun after_first_nonzero :: "(int \<times> 'a) list \<Rightarrow> (int \<times> 'a) list" where
  "after_first_nonzero [] = []"
| "after_first_nonzero ((r, x) # q) = (if r = 0 then after_first_nonzero q else q)"

definition receive_statuses :: "(int \<times> 'a) list \<Rightarrow> bool" where
  "receive_statuses q \<longleftrightarrow> list_all (\<lambda>(r, x). r \<le> 0) q"

lemma receive_statuses_pull:
  "receive_statuses q \<Longrightarrow>
     pull_end d q = first_nonzero d q \<and> drop (Suc (pulled q)) q = after_first_nonzero q"
  by (induction q) (auto simp: receive_statuses_def)

definition w_c5 :: world where
  "w_c5 = idle_world\<lparr>
     avcodec_receive_frame_q := [(0, frame_of 0 [1]), (- 22, blank_frame), (0, frame_of 1 [2])],
     avcodec_receive_packet_q := [(0, unit_of 0 0 [9]), (AVERROR_EOF, blank_packet),
       (0, unit_of 0 1 [8])]\<rparr>"

definition w_c5b :: world where
  "w_c5b = idle_world\<lparr>
     avcodec_receive_frame_q := [(0, frame_of 0 [1])],
     avcodec_receive_packet_q := [(- 22, blank_packet), (0, unit_of 0 1 [8])]\<rparr>"

text \<open>
  C5: in the pull loops of \<open>transcode\<close> and \<open>encode_frame_and_send\<close> the statuses
  "try again" and "end of stream" end the loop with a success result, and any other non-zero
  receive status is fatal and makes the enclosing operation return a nonzero result.

  Proved for every world whose receive statuses are 0 or negative. After a submission that
  the codec accepted, the loop of \<open>transcode\<close> pulls up to the first non-zero status and
  no further, and \<open>transcode\<close> returns 0 when that status is \<open>AVERROR(EAGAIN)\<close> or
  \<open>AVERROR_EOF\<close> and \<open>-1\<close> otherwise; the same holds of \<open>encode_frame_and_send\<close>
  when the writer accepts the units delivered before that status. When the first non-zero
  status is neither of the two codes, the result of the operation is not 0 in every case.
\<close>

theorem pull_loop_statuses:
  assumes "receive_statuses (avcodec_receive_frame_q w)"
    and "receive_statuses (avcodec_receive_packet_q w)"
  shows
    "(fst (avcodec_send_packet w incc (Some p)) = 0 \<longrightarrow>
        avcodec_receive_frame_q (snd (transcode w incc outcc p i out k)) =
          after_first_nonzero (avcodec_receive_frame_q w) \<and>
        fst (transcode w incc outcc p i out k) =
          (if first_nonzero AVERROR_EAGAIN (avcodec_receive_frame_q w) = AVERROR_EAGAIN \<or>
              first_nonzero AVERROR_EAGAIN (avcodec_receive_frame_q w) = AVERROR_EOF
           then 0 else - 1)) \<and>
     (first_nonzero AVERROR_EAGAIN (avcodec_receive_frame_q w) \<noteq> AVERROR_EAGAIN \<and>
      first_nonzero AVERROR_EAGAIN (avcodec_receive_frame_q w) \<noteq> AVERROR_EOF \<longrightarrow>
        fst (transcode w incc outcc p i out k) \<noteq> 0) \<and>
     (fst (avcodec_send_frame w outcc (Some f)) = 0 \<and> writes_accepted w \<longrightarrow>
        avcodec_receive_packet_q (snd (encode_frame_and_send w outcc f i out k)) =
          after_first_nonzero (avcodec_receive_packet_q w) \<and>
        fst (encode_frame_and_send w outcc f i out k) =
          (if first_nonzero AVERROR_EAGAIN (avcodec_receive_packet_q w) = AVERROR_EAGAIN \<or>
              first_nonzero AVERROR_EAGAIN (avcodec_receive_packet_q w) = AVERROR_EOF
           then 0 else - 1)) \<and>
     (first_nonzero AVERROR_EAGAIN (avcodec_receive_packet_q w) \<noteq> AVERROR_EAGAIN \<and>
      first_nonzero AVERROR_EAGAIN (avcodec_receive_packet_q w) \<noteq> AVERROR_EOF \<longrightarrow>
        fst (encode_frame_and_send w outcc f i out k) \<noteq> 0)"
proof -
  note fr = receive_statuses_pull [OF assms(1), of AVERROR_EAGAIN]
  note pk = receive_statuses_pull [OF assms(2), of AVERROR_EAGAIN]
  have a: "fst (avcodec_send_packet w incc (Some p)) = 0 \<longrightarrow>
        avcodec_receive_frame_q (snd (transcode w incc outcc p i out k)) =
          after_first_nonzero (avcodec_receive_frame_q w)"
    using transcode_rest [of w incc p outcc i out k] fr by simp
  have b: "fst (transcode w incc outcc p i out k) =
     (if fst (avcodec_send_packet w incc (Some p)) \<noteq> 0 then - 1
      else if first_nonzero AVERROR_EAGAIN (avcodec_receive_frame_q w) = AVERROR_EAGAIN \<or>
              first_nonzero AVERROR_EAGAIN (avcodec_receive_frame_q w) = AVERROR_EOF
           then 0 else - 1)"
    using transcode_result [of w incc outcc p i out k] fr by (auto simp: loop_result_def)
  have c: "fst (avcodec_send_frame w outcc (Some f)) = 0 \<and> writes_accepted w \<longrightarrow>
        avcodec_receive_packet_q (snd (encode_frame_and_send w outcc f i out k)) =
          after_first_nonzero (avcodec_receive_packet_q w)"
    using encode_frame_and_send_rest [of w outcc f i out k] pk by simp
  have d: "fst (encode_frame_and_send w outcc f i out k) =
     (if fst (avcodec_send_frame w outcc (Some f)) \<noteq> 0 \<or> \<not> writes_accepted w then - 1
      else if first_nonzero AVERROR_EAGAIN (avcodec_receive_packet_q w) = AVERROR_EAGAIN \<or>
              first_nonzero AVERROR_EAGAIN (avcodec_receive_packet_q w) = AVERROR_EOF
           then 0 else - 1)"
    using encode_frame_and_send_result [of w outcc f i out k] pk by (auto simp: loop_result_def)
  have "fst (transcode w incc outcc p i out k) \<noteq> 0"
    if "first_nonzero AVERROR_EAGAIN (avcodec_receive_frame_q w) \<noteq> AVERROR_EAGAIN"
      "first_nonzero AVERROR_EAGAIN (avcodec_receive_frame_q w) \<noteq> AVERROR_EOF"
    unfolding b using that by simp
  moreover have "fst (encode_frame_and_send w outcc f i out k) \<noteq> 0"
    if "first_nonzero AVERROR_EAGAIN (avcodec_receive_packet_q w) \<noteq> AVERROR_EAGAIN"
      "first_nonzero AVERROR_EAGAIN (avcodec_receive_packet_q w) \<noteq> AVERROR_EOF"
    unfolding d using that by simp
  moreover have "fst (avcodec_send_packet w incc (Some p)) = 0 \<longrightarrow>
      fst (transcode w incc outcc p i out k) =
          (if first_nonzero AVERROR_EAGAIN (avcodec_receive_frame_q w) = AVERROR_EAGAIN \<or>
              first_nonzero AVERROR_EAGAIN (avcodec_receive_frame_q w) = AVERROR_EOF
           then 0 else - 1)"
    unfolding b by simp
  moreover have "fst (avcodec_send_frame w outcc (Some f)) = 0 \<and> writes_accepted w \<longrightarrow>
      fst (encode_frame_and_send w outcc f i out k) =
          (if first_nonzero AVERROR_EAGAIN (avcodec_receive_packet_q w) = AVERROR_EAGAIN \<or>
              first_nonzero AVERROR_EAGAIN (avcodec_receive_packet_q w) = AVERROR_EOF
           then 0 else - 1)"
    unfolding d by simp
  ultimately show ?thesis
    using a c by blast
qed

text \<open>Two runs. In the first the decoder delivers a frame and then fails with status
  \<open>-22\<close>, and the encoder delivers a unit and then answers \<open>AVERROR_EOF\<close>:
  \<open>transcode\<close> returns \<open>-1\<close>, \<open>encode_frame_and_send\<close> returns 0, and each loop
  leaves in its queue the answer after the status that ended it. In the second the
  decoder delivers a frame and then has nothing more (\<open>AVERROR(EAGAIN)\<close>), and the
  encoder fails with status \<open>-22\<close>.\<close>

theorem pull_loop_statuses_witness:
  "receive_statuses (avcodec_receive_frame_q w_c5) \<and>
   receive_statuses (avcodec_receive_packet_q w_c5) \<and>
   fst (avcodec_send_packet w_c5 (Some 0) (Some (unit_of 0 0 [7]))) = 0 \<and>
   first_nonzero AVERROR_EAGAIN (avcodec_receive_frame_q w_c5) = - 22 \<and>
   fst (transcode w_c5 (Some 0) 1 (unit_of 0 0 [7]) video_stream video_stream 0) = - 1 \<and>
   avcodec_receive_frame_q
     (snd (transcode w_c5 (Some 0) 1 (unit_of 0 0 [7]) video_stream video_stream 0)) =
     [(0, frame_of 1 [2])] \<and>
   fst (avcodec_send_frame w_c5 1 (Some (frame_of 0 [1]))) = 0 \<and> writes_accepted w_c5 \<and>
   first_nonzero AVERROR_EAGAIN (avcodec_receive_packet_q w_c5) = AVERROR_EOF \<and>
   fst (encode_frame_and_send w_c5 1 (frame_of 0 [1]) video_stream video_stream 0) = 0 \<and>
   avcodec_receive_packet_q
     (snd (encode_frame_and_send w_c5 1 (frame_of 0 [1]) video_stream video_stream 0)) =
     [(0, unit_of 0 1 [8])] \<and>
   receive_statuses (avcodec_receive_frame_q w_c5b) \<and>
   receive_statuses (avcodec_receive_packet_q w_c5b) \<and>
   fst (avcodec_send_packet w_c5b (Some 0) (Some (unit_of 0 0 [7]))) = 0 \<and>
   first_nonzero AVERROR_EAGAIN (avcodec_receive_frame_q w_c5b) = AVERROR_EAGAIN \<and>
   fst (transcode w_c5b (Some 0) 1 (unit_of 0 0 [7]) video_stream video_stream 0) = 0 \<and>
   first_nonzero AVERROR_EAGAIN (avcodec_receive_packet_q w_c5b) = - 22 \<and>
   fst (encode_frame_and_send w_c5b 1 (frame_of 0 [1]) video_stream video_stream 0) = - 1"
proof -
  have h: "receive_statuses (avcodec_receive_frame_q w_c5)"
    "receive_statuses (avcodec_receive_packet_q w_c5)"
    "receive_statuses (avcodec_receive_frame_q w_c5b)"
    "receive_statuses (avcodec_receive_packet_q w_c5b)"
    by (simp_all add: w_c5_def w_c5b_def receive_statuses_def AVERROR_EOF_def)
  have s: "fst (avcodec_send_packet w_c5 (Some 0) (Some (unit_of 0 0 [7]))) = 0"
    "fst (avcodec_send_frame w_c5 1 (Some (frame_of 0 [1]))) = 0"
    "writes_accepted w_c5"
    "fst (avcodec_send_packet w_c5b (Some 0) (Some (unit_of 0 0 [7]))) = 0"
    "fst (avcodec_send_frame w_c5b 1 (Some (frame_of 0 [1]))) = 0"
    by (simp_all add: w_c5_def w_c5b_def idle_world_def writes_accepted_def call_defs)
  have q: "first_nonzero AVERROR_EAGAIN (avcodec_receive_frame_q w_c5) = - 22"
    "after_first_nonzero (avcodec_receive_frame_q w_c5) = [(0, frame_of 1 [2])]"
    "first_nonzero AVERROR_EAGAIN (avcodec_receive_packet_q w_c5) = AVERROR_EOF"
    "after_first_nonzero (avcodec_receive_packet_q w_c5) = [(0, unit_of 0 1 [8])]"
    "first_nonzero AVERROR_EAGAIN (avcodec_receive_frame_q w_c5b) = AVERROR_EAGAIN"
    "first_nonzero AVERROR_EAGAIN (avcodec_receive_packet_q w_c5b) = - 22"
    by (simp_all add: w_c5_def w_c5b_def AVERROR_EOF_def)
  have n: "(- 22 :: int) \<noteq> AVERROR_EAGAIN" "(- 22 :: int) \<noteq> AVERROR_EOF"
    by (simp_all add: AVERROR_EAGAIN_def AVERROR_EOF_def)
  note a = pull_loop_statuses [OF h(1) h(2), of "Some 0" "unit_of 0 0 [7]" 1 video_stream
      video_stream 0 "frame_of 0 [1]"]
  note b = pull_loop_statuses [OF h(3) h(4), of "Some 0" "unit_of 0 0 [7]" 1 video_stream
      video_stream 0 "frame_of 0 [1]"]
  have a1: "fst (transcode w_c5 (Some 0) 1 (unit_of 0 0 [7]) video_stream video_stream 0) = - 1"
    "avcodec_receive_frame_q
       (snd (transcode w_c5 (Some 0) 1 (unit_of 0 0 [7]) video_stream video_stream 0)) =
     [(0, frame_of 1 [2])]"
    using a s(1) n unfolding q by simp_all
  have a2: "fst (encode_frame_and_send w_c5 1 (frame_of 0 [1]) video_stream video_stream 0) = 0"
    "avcodec_receive_packet_q
       (snd (encode_frame_and_send w_c5 1 (frame_of 0 [1]) video_stream video_stream 0)) =
     [(0, unit_of 0 1 [8])]"
    using a s(2) s(3) unfolding q by simp_all
  have b1: "fst (transcode w_c5b (Some 0) 1 (unit_of 0 0 [7]) video_stream video_stream 0) = 0"
    using b s(4) unfolding q by simp
  have b2: "fst (encode_frame_and_send w_c5b 1 (frame_of 0 [1]) video_stream video_stream 0) = - 1"
    using b s(5) n unfolding q by (simp add: writes_accepted_def w_c5b_def idle_world_def)
  show ?thesis
    using h s(1-4) q(1,3,5,6) a1 a2 b1 b2 by simp
qed

subsection \<open>C7: the status decoded in the diagnostic of a failed pull\<close>

definition w_c7 :: world where
  "w_c7 = idle_world\<lparr>
     avcodec_receive_frame_q := [(0, frame_of 0 [1]), (- 22, blank_frame)],
     avcodec_receive_packet_q := [(- 22, blank_packet)]\<rparr>"

text \<open>
  C7 says that every diagnostic decodes the status of the operation that failed, also for a
  failing \<open>avcodec_receive_frame\<close> and a failing \<open>avcodec_receive_packet\<close>. Lines 45
  and 69 of the source pass \<open>reason\<close> to \<open>print_error\<close>, not \<open>packet_reason\<close> and
  \<open>frame_reason\<close>; at both places \<open>reason\<close> is 0. In the run below both pulls fail
  with status \<open>-22\<close>, whose text is "Invalid argument", and both diagnostics carry the
  text of status 0.
\<close>

theorem receive_failure_prints_status_zero:
  "av_strerror_tab w_c7 (- 22) = ''Invalid argument'' \<and>
   av_strerror_tab w_c7 0 = ''Success'' \<and>
   fst (transcode w_c7 (Some 0) 1 (unit_of 0 0 [7]) video_stream video_stream 0) = - 1 \<and>
   trace (snd (transcode w_c7 (Some 0) 1 (unit_of 0 0 [7]) video_stream video_stream 0)) =
     [Ev_avcodec_send_packet (Some 0) (Some (unit_of 0 0 [7])),
      Ev_av_packet_unref,
      Ev_avcodec_receive_frame (Some 0),
      Ev_avcodec_send_frame 1 (Some (frame_of 0 [1])),
      Ev_avcodec_receive_packet 1,
      Ev_printf (''Failed to receive encode packets: Success'' @ [CHR 0x0A]),
      Ev_av_frame_unref,
      Ev_avcodec_receive_frame (Some 0),
      Ev_printf (''Failed to receive decode frames: Success'' @ [CHR 0x0A])]"
  by (simp add: w_c7_def idle_world_def unit_of_def frame_of_def video_stream_def
      call_defs run_defs)



lemma body_events_count:
  "list_all body_event evs \<Longrightarrow>
     count_list evs Ev_avformat_write_header = 0 \<and> count_list evs Ev_av_write_trailer = 0"
  by (induction evs) auto

subsection \<open>C2: no drain at the end of the input\<close>

definition infc_c2 :: AVFormatContext where
  "infc_c2 = \<lparr>streams = [video_stream]\<rparr>"





subsection \<open>C3: header, body and trailer in \<open>write_output\<close>\<close>

definition infc_c3 :: AVFormatContext where
  "infc_c3 = \<lparr>streams = [audio_stream]\<rparr>"

definition w_c3 :: world where
  "w_c3 = idle_world\<lparr>
     av_read_frame_q := [(0, unit_of 0 0 [1])],
     av_interleaved_write_frame_q := [- 5],
     outfc_streams := [audio_stream],
     out_stream_indices := [0],
     in_codec_contexts := [None],
     out_codec_contexts := [None]\<rparr>"

text \<open>
  C3 says that \<open>write_output\<close> writes the header once before any body unit and the
  trailer once after the body loop has completed successfully, and that it returns a
  failure exactly when writing the header or the trailer fails. The result of
  \<open>write_body\<close> is returned as well when it is not 0 (lines 126 to 129): in the run
  below the header is written with status \<open>AVSTREAM_INIT_IN_WRITE_HEADER\<close>, the
  writer rejects the only unit, no trailer is written, and \<open>write_output\<close> returns
  \<open>-1\<close>.
\<close>

theorem write_output_fails_on_body_failure:
  "fst (avformat_write_header w_c3) = AVSTREAM_INIT_IN_WRITE_HEADER \<and>
   fst (write_output w_c3 infc_c3) = Some (- 1) \<and>
   trace (snd (write_output w_c3 infc_c3)) =
     [Ev_avformat_write_header,
      Ev_av_packet_alloc, Ev_av_frame_alloc,
      Ev_av_read_frame,
      Ev_av_interleaved_write_frame (unit_of 0 0 [1]),
      Ev_printf (''Failed to write frame: Error'' @ [CHR 0x0A]),
      Ev_av_frame_free, Ev_av_packet_free]"
  by (simp add: w_c3_def infc_c3_def idle_world_def unit_of_def audio_stream_def
      call_defs run_defs)

lemma avformat_write_header_trace:
  "trace (snd (avformat_write_header w)) = trace w @ [Ev_avformat_write_header]"
  "fixed_part (snd (avformat_write_header w)) = fixed_part w"
  by (simp_all add: avformat_write_header_def log_def fixed_part_def split: list.splits)

lemma av_write_trailer_trace:
  "trace (snd (av_write_trailer w)) = trace w @ [Ev_av_write_trailer]"
  "fixed_part (snd (av_write_trailer w)) = fixed_part w"
  by (simp_all add: av_write_trailer_def log_def fixed_part_def split: list.splits)

lemma print_error_trace:
  "trace (print_error w d e) = trace w @ [Ev_printf (d @ '': '' @ av_strerror_tab w e @ [CHR 0x0A])]"
  by (simp add: print_error_def log_def)

lemma fixed_part_strerror: "fixed_part w' = fixed_part w \<Longrightarrow> av_strerror_tab w' = av_strerror_tab w"
  by (simp add: fixed_part_def)

text \<open>
  C3 as the code has it, for a header write that fails (negative status) or returns
  \<open>AVSTREAM_INIT_IN_WRITE_HEADER\<close>: the header write is the first call and the only
  header write; the body loop runs after it and writes neither header nor trailer; the
  trailer is written once, after the body, when the body loop returned 0, and not at all
  otherwise. \<open>write_output\<close> returns \<open>-1\<close> when the header write fails, the result
  of the body loop when that is not 0, \<open>-1\<close> when the trailer write fails, and 0
  otherwise.
\<close>

theorem write_output_header_trailer:
  assumes "fst (avformat_write_header w) \<le> 0"
  shows "(let h = fst (avformat_write_header w); w1 = snd (avformat_write_header w);
              b = fst (write_body w1 infc); w2 = snd (write_body w1 infc);
              t = fst (av_write_trailer w2);
              w' = snd (write_output w infc); evs = new_events w w'
          in trace w' = trace w @ evs \<and>
             list_all body_event (new_events w1 w2) \<and>
             evs = Ev_avformat_write_header #
               (if h < 0
                then [Ev_printf (''Failed to write header to output file: '' @
                        av_strerror_tab w h @ [CHR 0x0A])]
                else new_events w1 w2 @
                  (if b = Some 0
                   then Ev_av_write_trailer #
                     (if t \<noteq> 0
                      then [Ev_printf (''Failed to write trailer: '' @
                              av_strerror_tab w t @ [CHR 0x0A])]
                      else [])
                   else [])) \<and>
             count_list evs Ev_avformat_write_header = 1 \<and>
             count_list evs Ev_av_write_trailer = (if h = 0 \<and> b = Some 0 then 1 else 0) \<and>
             fst (write_output w infc) =
               (if h < 0 then Some (- 1) else if b \<noteq> Some 0 then b
                else if t \<noteq> 0 then Some (- 1) else Some 0))"
proof -
  obtain h w1 where hd: "avformat_write_header w = (h, w1)"
    by (cases "avformat_write_header w") auto
  obtain b w2 where bd: "write_body w1 infc = (b, w2)"
    by (cases "write_body w1 infc") auto
  obtain t w3 where tr: "av_write_trailer w2 = (t, w3)"
    by (cases "av_write_trailer w2") auto
  have h0: "h \<le> 0" using assms by (simp add: hd)
  have t1: "trace w1 = trace w @ [Ev_avformat_write_header]" and f1: "fixed_part w1 = fixed_part w"
    using avformat_write_header_trace [of w] by (simp_all add: hd)
  have ext: "extends body_event w1 w2"
    using write_body_extends [of w1 infc] bd by simp
  have f2: "fixed_part w2 = fixed_part w"
    using write_body_fixed [of w1 infc] bd f1 by simp
  have body: "list_all body_event (new_events w1 w2)"
    using ext by (simp add: extends_def)
  have t2: "trace w2 = trace w @ Ev_avformat_write_header # new_events w1 w2"
    using extendsD [OF ext] t1 by simp
  have t3: "trace w3 = trace w @ Ev_avformat_write_header # new_events w1 w2 @ [Ev_av_write_trailer]"
    and f3: "fixed_part w3 = fixed_part w"
    using av_write_trailer_trace [of w2] t2 f2 by (simp_all add: tr)
  note cnt = body_events_count [OF body]
  note se = fixed_part_strerror [OF f1] fixed_part_strerror [OF f3]
  let ?w' = "snd (write_output w infc)"
  show ?thesis
  proof (cases "h < 0")
    case True
    then have res: "write_output w infc =
        (Some (- 1), print_error w1 ''Failed to write header to output file'' h)"
      by (simp add: write_output_def hd AVSTREAM_INIT_IN_WRITE_HEADER_def)
    have tw: "trace ?w' = trace w @ [Ev_avformat_write_header,
        Ev_printf (''Failed to write header to output file: '' @ av_strerror_tab w h @ [CHR 0x0A])]"
      by (simp add: res print_error_trace t1 se)
    show ?thesis
      using True body
      by (simp add: Let_def hd bd tr new_events_eq [OF tw] tw arg_cong [OF res, of fst])
  next
    case False
    with h0 have hz: "h = 0" by simp
    show ?thesis
    proof (cases "b = Some 0")
      case False
      then have res: "write_output w infc = (b, w2)"
        by (auto simp: write_output_def hd bd hz AVSTREAM_INIT_IN_WRITE_HEADER_def
            split: option.splits)
      have tw: "trace ?w' = trace w @ Ev_avformat_write_header # new_events w1 w2"
        by (simp add: res t2)
      show ?thesis
        using False body cnt
        by (simp add: Let_def hd bd tr new_events_eq [OF tw] tw arg_cong [OF res, of fst] hz)
    next
      case True
      show ?thesis
      proof (cases "t = 0")
        case tz: True
        have res: "write_output w infc = (Some 0, w3)"
          by (simp add: write_output_def hd bd tr hz True tz AVSTREAM_INIT_IN_WRITE_HEADER_def)
        have tw: "trace ?w' = trace w @
            Ev_avformat_write_header # new_events w1 w2 @ [Ev_av_write_trailer]"
          by (simp add: res t3)
        show ?thesis
          using True tz body cnt
          by (simp add: Let_def hd bd tr new_events_eq [OF tw] tw arg_cong [OF res, of fst] hz)
      next
        case tn: False
        have res: "write_output w infc = (Some (- 1), print_error w3 ''Failed to write trailer'' t)"
          using tn
          by (simp add: write_output_def hd bd tr hz True AVSTREAM_INIT_IN_WRITE_HEADER_def)
        have tw: "trace ?w' = trace w @
            Ev_avformat_write_header # new_events w1 w2 @
              [Ev_av_write_trailer,
               Ev_printf (''Failed to write trailer: '' @ av_strerror_tab w t @ [CHR 0x0A])]"
          by (simp add: res print_error_trace t3 se)
        show ?thesis
          using True tn body cnt
          by (simp add: Let_def hd bd tr new_events_eq [OF tw] tw arg_cong [OF res, of fst] hz)
      qed
    qed
  qed
qed

definition w_ok :: world where
  "w_ok = idle_world\<lparr>
     av_read_frame_q := [(0, unit_of 0 0 [1]), (0, unit_of 1 0 [2])],
     outfc_streams := [audio_stream],
     out_stream_indices := [0, - 1],
     in_codec_contexts := [None, None],
     out_codec_contexts := [None, None]\<rparr>"

definition infc_ok :: AVFormatContext where
  "infc_ok = \<lparr>streams = [audio_stream, subtitle_stream]\<rparr>"

theorem write_output_header_trailer_witness:
  "fst (avformat_write_header w_ok) \<le> 0 \<and>
   fst (write_output w_ok infc_ok) = Some 0 \<and>
   trace (snd (write_output w_ok infc_ok)) =
     [Ev_avformat_write_header,
      Ev_av_packet_alloc, Ev_av_frame_alloc,
      Ev_av_read_frame, Ev_av_interleaved_write_frame (unit_of 0 0 [1]), Ev_av_packet_unref,
      Ev_av_read_frame, Ev_av_packet_unref,
      Ev_av_read_frame,
      Ev_av_frame_free, Ev_av_packet_free,
      Ev_av_write_trailer] \<and>
   count_list (new_events w_ok (snd (write_output w_ok infc_ok))) Ev_avformat_write_header = 1 \<and>
   count_list (new_events w_ok (snd (write_output w_ok infc_ok))) Ev_av_write_trailer = 1"
proof -
  have h: "fst (avformat_write_header w_ok) \<le> 0"
    by (simp add: w_ok_def idle_world_def call_defs)
  have r: "fst (write_output w_ok infc_ok) = Some 0 \<and>
   trace (snd (write_output w_ok infc_ok)) =
     [Ev_avformat_write_header,
      Ev_av_packet_alloc, Ev_av_frame_alloc,
      Ev_av_read_frame, Ev_av_interleaved_write_frame (unit_of 0 0 [1]), Ev_av_packet_unref,
      Ev_av_read_frame, Ev_av_packet_unref,
      Ev_av_read_frame,
      Ev_av_frame_free, Ev_av_packet_free,
      Ev_av_write_trailer]"
    by (simp add: w_ok_def infc_ok_def idle_world_def unit_of_def audio_stream_def
        subtitle_stream_def call_defs run_defs)
  have hz: "fst (avformat_write_header w_ok) = 0"
    and bz: "fst (write_body (snd (avformat_write_header w_ok)) infc_ok) = Some 0"
    by (simp_all add: w_ok_def infc_ok_def idle_world_def unit_of_def audio_stream_def
        subtitle_stream_def call_defs run_defs)
  have "count_list (new_events w_ok (snd (write_output w_ok infc_ok))) Ev_avformat_write_header = 1 \<and>
    count_list (new_events w_ok (snd (write_output w_ok infc_ok))) Ev_av_write_trailer =
      (if fst (avformat_write_header w_ok) = 0 \<and>
          fst (write_body (snd (avformat_write_header w_ok)) infc_ok) = Some 0 then 1 else 0)"
    using write_output_header_trailer [OF h, of infc_ok] unfolding Let_def by blast
  then show ?thesis
    using h r hz bz by simp
qed

subsection \<open>C8: a unit on a pass-through stream\<close>

lemma av_interleaved_write_frame_trace:
  "trace (snd (av_interleaved_write_frame w p)) = trace w @ [Ev_av_interleaved_write_frame p]"
  "av_strerror_tab (snd (av_interleaved_write_frame w p)) = av_strerror_tab w"
  by (simp_all add: av_interleaved_write_frame_def log_def split: list.splits)

lemma write_packet_trace:
  "trace (snd (write_packet w p i out k)) =
     trace w @
       Ev_av_interleaved_write_frame
         (av_packet_rescale_ts w (p\<lparr>stream_index := k\<rparr>) (st_time_base i) (st_time_base out)) #
       (if fst (write_packet w p i out k) \<noteq> 0
        then [Ev_printf (''Failed to write frame: '' @
                av_strerror_tab w
                  (fst (av_interleaved_write_frame w
                     (av_packet_rescale_ts w (p\<lparr>stream_index := k\<rparr>)
                        (st_time_base i) (st_time_base out)))) @ [CHR 0x0A])]
        else [])"
proof -
  let ?p = "av_packet_rescale_ts w (p\<lparr>stream_index := k\<rparr>) (st_time_base i) (st_time_base out)"
  obtain s w1 where wr: "av_interleaved_write_frame w ?p = (s, w1)"
    by (cases "av_interleaved_write_frame w ?p") auto
  have "trace w1 = trace w @ [Ev_av_interleaved_write_frame ?p]"
    "av_strerror_tab w1 = av_strerror_tab w"
    using av_interleaved_write_frame_trace [of w ?p] by (simp_all add: wr)
  then show ?thesis
    by (simp add: write_packet_def wr print_error_trace)
qed

text \<open>
  C8: for a unit \<open>p\<close> on a pass-through stream (the entry of \<open>out_codec_contexts\<close>
  for its stream is the null pointer), the unit \<open>p'\<close> that \<open>write_packet\<close> hands to
  the writer is \<open>p\<close> with the stream index set to the mapped output index and the three
  timing fields rebased from the time base of the input stream to that of the output
  stream; the payload is that of \<open>p\<close>. The calls of \<open>write_packet\<close> are the writer
  call and, when the writer rejects the unit, the diagnostic; the calls of the loop body
  of \<open>write_body\<close> for such a unit are these and the release of the unit: no call
  names a codec context.
\<close>

theorem write_packet_pass_through:
  "(let p' = av_packet_rescale_ts w (p\<lparr>stream_index := k\<rparr>) (st_time_base i) (st_time_base out);
        s = fst (av_interleaved_write_frame w p');
        diagnostic = Ev_printf (''Failed to write frame: '' @ av_strerror_tab w s @ [CHR 0x0A])
    in p' = p\<lparr>stream_index := k, pts := pts p', dts := dts p', duration := duration p'\<rparr> \<and>
       data p' = data p \<and> stream_index p' = k \<and>
       (pts p', dts p', duration p') =
         av_rescale_ts_tab w (st_time_base i) (st_time_base out) (pts p, dts p, duration p) \<and>
       fst (write_packet w p i out k) = (if s \<noteq> 0 then - 1 else 0) \<and>
       trace (snd (write_packet w p i out k)) =
         trace w @ Ev_av_interleaved_write_frame p' # (if s \<noteq> 0 then [diagnostic] else []) \<and>
       (array_read (out_stream_indices w) (stream_index p) = Some k \<and> k \<noteq> - 1 \<and>
        array_read (streams infc) (stream_index p) = Some i \<and>
        array_read (outfc_streams w) k = Some out \<and>
        array_read (out_codec_contexts w) (stream_index p) = Some None \<longrightarrow>
          fst (write_body_iteration w infc p) = (if s \<noteq> 0 then Goto_end (- 1) else Continue) \<and>
          trace (snd (write_body_iteration w infc p)) =
            trace w @ Ev_av_interleaved_write_frame p' #
              (if s \<noteq> 0 then [diagnostic] else [Ev_av_packet_unref])))"
proof -
  let ?p = "av_packet_rescale_ts w (p\<lparr>stream_index := k\<rparr>) (st_time_base i) (st_time_base out)"
  obtain s w1 where wr: "av_interleaved_write_frame w ?p = (s, w1)"
    by (cases "av_interleaved_write_frame w ?p") auto
  have res: "fst (write_packet w p i out k) = (if s \<noteq> 0 then - 1 else 0)"
    by (simp add: write_packet_def wr)
  have fields: "?p = p\<lparr>stream_index := k, pts := pts ?p, dts := dts ?p, duration := duration ?p\<rparr>"
    "data ?p = data p" "stream_index ?p = k"
    "(pts ?p, dts ?p, duration ?p) =
       av_rescale_ts_tab w (st_time_base i) (st_time_base out) (pts p, dts p, duration p)"
    by (simp_all add: av_packet_rescale_ts_def split: prod.splits)
  have tr: "trace (snd (write_packet w p i out k)) =
      trace w @ Ev_av_interleaved_write_frame ?p #
        (if s \<noteq> 0 then [Ev_printf (''Failed to write frame: '' @ av_strerror_tab w s @ [CHR 0x0A])]
         else [])"
    using write_packet_trace [of w p i out k] by (simp add: res wr)
  have it: "fst (write_body_iteration w infc p) = (if s \<noteq> 0 then Goto_end (- 1) else Continue) \<and>
      trace (snd (write_body_iteration w infc p)) =
        trace w @ Ev_av_interleaved_write_frame ?p #
          (if s \<noteq> 0 then [Ev_printf (''Failed to write frame: '' @ av_strerror_tab w s @ [CHR 0x0A])]
           else [Ev_av_packet_unref])"
    if "array_read (out_stream_indices w) (stream_index p) = Some k" "k \<noteq> - 1"
      "array_read (streams infc) (stream_index p) = Some i"
      "array_read (outfc_streams w) k = Some out"
      "array_read (out_codec_contexts w) (stream_index p) = Some None"
  proof -
    obtain r w2 where wp: "write_packet w p i out k = (r, w2)"
      by (cases "write_packet w p i out k") auto
    have "write_body_iteration w infc p =
        (if r \<noteq> 0 then (Goto_end r, w2) else (Continue, av_packet_unref w2))"
      using that by (simp add: write_body_iteration_def wp)
    then show ?thesis
      using res tr by (auto simp: wp av_packet_unref_def log_def)
  qed
  show ?thesis
    unfolding Let_def wr fst_conv
    using fields res tr it by (intro conjI impI) (simp_all add: wr)
qed

definition w_c8 :: world where
  "w_c8 = idle_world\<lparr>
     av_rescale_ts_tab := (\<lambda>src dst (a, b, c). (a * 2, b * 2, c * 2)),
     outfc_streams := [video_stream, audio_stream],
     out_stream_indices := [- 1, 0, 1],
     in_codec_contexts := [None, Some 0, None],
     out_codec_contexts := [None, Some 1, None]\<rparr>"

definition infc_c8 :: AVFormatContext where
  "infc_c8 = \<lparr>streams = [subtitle_stream, video_stream, audio_stream]\<rparr>"

theorem write_packet_pass_through_witness:
  "array_read (out_stream_indices w_c8) (stream_index (unit_of 2 5 [10, 20, 30])) = Some 1 \<and>
   array_read (streams infc_c8) (stream_index (unit_of 2 5 [10, 20, 30])) = Some audio_stream \<and>
   array_read (outfc_streams w_c8) 1 = Some audio_stream \<and>
   array_read (out_codec_contexts w_c8) (stream_index (unit_of 2 5 [10, 20, 30])) = Some None \<and>
   fst (write_body_iteration w_c8 infc_c8 (unit_of 2 5 [10, 20, 30])) = Continue \<and>
   trace (snd (write_body_iteration w_c8 infc_c8 (unit_of 2 5 [10, 20, 30]))) =
     [Ev_av_interleaved_write_frame
        \<lparr>stream_index = 1, pts = 10, dts = 10, duration = 2, data = [10, 20, 30]\<rparr>,
      Ev_av_packet_unref]"
proof -
  have a: "array_read (out_stream_indices w_c8) (stream_index (unit_of 2 5 [10, 20, 30])) = Some 1 \<and>
      (1 :: int) \<noteq> - 1 \<and>
      array_read (streams infc_c8) (stream_index (unit_of 2 5 [10, 20, 30])) = Some audio_stream \<and>
      array_read (outfc_streams w_c8) 1 = Some audio_stream \<and>
      array_read (out_codec_contexts w_c8) (stream_index (unit_of 2 5 [10, 20, 30])) = Some None"
    by (simp add: w_c8_def infc_c8_def idle_world_def unit_of_def array_read_def)
  have s: "fst (av_interleaved_write_frame w_c8 q) = 0" "trace w_c8 = []" for q
    by (simp_all add: w_c8_def idle_world_def av_interleaved_write_frame_def)
  have p: "av_packet_rescale_ts w_c8 ((unit_of 2 5 [10, 20, 30])\<lparr>stream_index := 1\<rparr>)
      (st_time_base audio_stream) (st_time_base audio_stream) =
      \<lparr>stream_index = 1, pts = 10, dts = 10, duration = 2, data = [10, 20, 30]\<rparr>"
    by (simp add: w_c8_def idle_world_def unit_of_def av_packet_rescale_ts_def)
  show ?thesis
    using write_packet_pass_through [where w = w_c8 and p = "unit_of 2 5 [10, 20, 30]"
        and k = 1 and i = audio_stream and out = audio_stream and infc = infc_c8] a
    unfolding Let_def p s by simp
qed

section \<open>What the calls of the set-up phase leave unchanged\<close>

text \<open>The library writes neither the three arrays of \<open>create_streams\<close> nor the table
  of decoders, and each call consumes answers of its own queue only.\<close>

lemma avcodec_alloc_context3_keeps:
  "out_stream_indices (snd (avcodec_alloc_context3 w c)) = out_stream_indices w"
  "in_codec_contexts (snd (avcodec_alloc_context3 w c)) = in_codec_contexts w"
  "out_codec_contexts (snd (avcodec_alloc_context3 w c)) = out_codec_contexts w"
  "avcodec_find_decoder_tab (snd (avcodec_alloc_context3 w c)) = avcodec_find_decoder_tab w"
  "avformat_new_stream_q (snd (avcodec_alloc_context3 w c)) = avformat_new_stream_q w"
  "avcodec_parameters_copy_q (snd (avcodec_alloc_context3 w c)) = avcodec_parameters_copy_q w"
  "avcodec_parameters_from_context_q (snd (avcodec_alloc_context3 w c)) = avcodec_parameters_from_context_q w"
  by (simp_all add: avcodec_alloc_context3_def new_context_def log_def split: list.splits option.splits prod.splits)

lemma avcodec_parameters_to_context_keeps:
  "out_stream_indices (snd (avcodec_parameters_to_context w h par)) = out_stream_indices w"
  "in_codec_contexts (snd (avcodec_parameters_to_context w h par)) = in_codec_contexts w"
  "out_codec_contexts (snd (avcodec_parameters_to_context w h par)) = out_codec_contexts w"
  "avcodec_find_decoder_tab (snd (avcodec_parameters_to_context w h par)) = avcodec_find_decoder_tab w"
  "avformat_new_stream_q (snd (avcodec_parameters_to_context w h par)) = avformat_new_stream_q w"
  "avcodec_parameters_copy_q (snd (avcodec_parameters_to_context w h par)) = avcodec_parameters_copy_q w"
  "avcodec_parameters_from_context_q (snd (avcodec_parameters_to_context w h par)) = avcodec_parameters_from_context_q w"
  by (simp_all add: avcodec_parameters_to_context_def log_def split: list.splits option.splits prod.splits)

lemma avcodec_open2_keeps:
  "out_stream_indices (snd (avcodec_open2 w h c)) = out_stream_indices w"
  "in_codec_contexts (snd (avcodec_open2 w h c)) = in_codec_contexts w"
  "out_codec_contexts (snd (avcodec_open2 w h c)) = out_codec_contexts w"
  "avcodec_find_decoder_tab (snd (avcodec_open2 w h c)) = avcodec_find_decoder_tab w"
  "avformat_new_stream_q (snd (avcodec_open2 w h c)) = avformat_new_stream_q w"
  "avcodec_parameters_copy_q (snd (avcodec_open2 w h c)) = avcodec_parameters_copy_q w"
  "avcodec_parameters_from_context_q (snd (avcodec_open2 w h c)) = avcodec_parameters_from_context_q w"
  by (simp_all add: avcodec_open2_def log_def split: list.splits option.splits prod.splits)

lemma avcodec_free_context_keeps:
  "out_stream_indices (avcodec_free_context w p) = out_stream_indices w"
  "in_codec_contexts (avcodec_free_context w p) = in_codec_contexts w"
  "out_codec_contexts (avcodec_free_context w p) = out_codec_contexts w"
  "avcodec_find_decoder_tab (avcodec_free_context w p) = avcodec_find_decoder_tab w"
  "avformat_new_stream_q (avcodec_free_context w p) = avformat_new_stream_q w"
  "avcodec_parameters_copy_q (avcodec_free_context w p) = avcodec_parameters_copy_q w"
  "avcodec_parameters_from_context_q (avcodec_free_context w p) = avcodec_parameters_from_context_q w"
  by (simp_all add: avcodec_free_context_def log_def split: list.splits option.splits prod.splits)

lemma printf_keeps:
  "out_stream_indices (printf w s) = out_stream_indices w"
  "in_codec_contexts (printf w s) = in_codec_contexts w"
  "out_codec_contexts (printf w s) = out_codec_contexts w"
  "avcodec_find_decoder_tab (printf w s) = avcodec_find_decoder_tab w"
  "avformat_new_stream_q (printf w s) = avformat_new_stream_q w"
  "avcodec_parameters_copy_q (printf w s) = avcodec_parameters_copy_q w"
  "avcodec_parameters_from_context_q (printf w s) = avcodec_parameters_from_context_q w"
  by (simp_all add: printf_def log_def split: list.splits option.splits prod.splits)

lemma print_error_keeps:
  "out_stream_indices (print_error w d e) = out_stream_indices w"
  "in_codec_contexts (print_error w d e) = in_codec_contexts w"
  "out_codec_contexts (print_error w d e) = out_codec_contexts w"
  "avcodec_find_decoder_tab (print_error w d e) = avcodec_find_decoder_tab w"
  "avformat_new_stream_q (print_error w d e) = avformat_new_stream_q w"
  "avcodec_parameters_copy_q (print_error w d e) = avcodec_parameters_copy_q w"
  "avcodec_parameters_from_context_q (print_error w d e) = avcodec_parameters_from_context_q w"
  by (simp_all add: print_error_def log_def split: list.splits option.splits prod.splits)

lemma avformat_new_stream_keeps:
  "out_stream_indices (snd (avformat_new_stream w)) = out_stream_indices w"
  "in_codec_contexts (snd (avformat_new_stream w)) = in_codec_contexts w"
  "out_codec_contexts (snd (avformat_new_stream w)) = out_codec_contexts w"
  "avcodec_find_decoder_tab (snd (avformat_new_stream w)) = avcodec_find_decoder_tab w"
  "avcodec_parameters_copy_q (snd (avformat_new_stream w)) = avcodec_parameters_copy_q w"
  "avcodec_parameters_from_context_q (snd (avformat_new_stream w)) = avcodec_parameters_from_context_q w"
  by (simp_all add: avformat_new_stream_def new_stream_def log_def split: list.splits option.splits prod.splits)

lemma avcodec_parameters_copy_keeps:
  "out_stream_indices (snd (avcodec_parameters_copy w st par)) = out_stream_indices w"
  "in_codec_contexts (snd (avcodec_parameters_copy w st par)) = in_codec_contexts w"
  "out_codec_contexts (snd (avcodec_parameters_copy w st par)) = out_codec_contexts w"
  "avcodec_find_decoder_tab (snd (avcodec_parameters_copy w st par)) = avcodec_find_decoder_tab w"
  "avformat_new_stream_q (snd (avcodec_parameters_copy w st par)) = avformat_new_stream_q w"
  "avcodec_parameters_from_context_q (snd (avcodec_parameters_copy w st par)) = avcodec_parameters_from_context_q w"
  by (simp_all add: avcodec_parameters_copy_def log_def split: list.splits option.splits prod.splits)

lemma avcodec_parameters_from_context_keeps:
  "out_stream_indices (snd (avcodec_parameters_from_context w st h)) = out_stream_indices w"
  "in_codec_contexts (snd (avcodec_parameters_from_context w st h)) = in_codec_contexts w"
  "out_codec_contexts (snd (avcodec_parameters_from_context w st h)) = out_codec_contexts w"
  "avcodec_find_decoder_tab (snd (avcodec_parameters_from_context w st h)) = avcodec_find_decoder_tab w"
  "avformat_new_stream_q (snd (avcodec_parameters_from_context w st h)) = avformat_new_stream_q w"
  "avcodec_parameters_copy_q (snd (avcodec_parameters_from_context w st h)) = avcodec_parameters_copy_q w"
  by (simp_all add: avcodec_parameters_from_context_def log_def split: list.splits option.splits prod.splits)

lemmas setup_keeps =
  avcodec_alloc_context3_keeps
  avcodec_parameters_to_context_keeps
  avcodec_open2_keeps
  avcodec_free_context_keeps
  printf_keeps
  print_error_keeps
  avformat_new_stream_keeps
  avcodec_parameters_copy_keeps
  avcodec_parameters_from_context_keeps

lemma create_decode_context_keeps:
  "out_stream_indices (snd (create_decode_context w c par)) = out_stream_indices w"
  "in_codec_contexts (snd (create_decode_context w c par)) = in_codec_contexts w"
  "out_codec_contexts (snd (create_decode_context w c par)) = out_codec_contexts w"
  "avcodec_find_decoder_tab (snd (create_decode_context w c par)) = avcodec_find_decoder_tab w"
  "avformat_new_stream_q (snd (create_decode_context w c par)) = avformat_new_stream_q w"
  "avcodec_parameters_copy_q (snd (create_decode_context w c par)) = avcodec_parameters_copy_q w"
  "avcodec_parameters_from_context_q (snd (create_decode_context w c par)) =
     avcodec_parameters_from_context_q w"
  by (simp_all add: create_decode_context_def split_beta setup_keeps split: option.splits)

lemma create_encode_context_keeps:
  "out_stream_indices (snd (create_encode_context w c h infc st)) = out_stream_indices w"
  "in_codec_contexts (snd (create_encode_context w c h infc st)) = in_codec_contexts w"
  "out_codec_contexts (snd (create_encode_context w c h infc st)) = out_codec_contexts w"
  "avcodec_find_decoder_tab (snd (create_encode_context w c h infc st)) = avcodec_find_decoder_tab w"
  "avformat_new_stream_q (snd (create_encode_context w c h infc st)) = avformat_new_stream_q w"
  "avcodec_parameters_copy_q (snd (create_encode_context w c h infc st)) =
     avcodec_parameters_copy_q w"
  "avcodec_parameters_from_context_q (snd (create_encode_context w c h infc st)) =
     avcodec_parameters_from_context_q w"
  by (simp_all add: create_encode_context_def assign_encode_fields_def split_beta Let_def
      setup_keeps split: option.splits)

lemma avcodec_alloc_context3_cases:
  obtains (null) w1 where "avcodec_alloc_context3 w codec = (None, w1)"
      "trace w1 = trace w @ [Ev_avcodec_alloc_context3 codec None]"
      "contexts w1 = contexts w" "next_context w1 = next_context w"
      "av_guess_frame_rate_tab w1 = av_guess_frame_rate_tab w"
      "av_strerror_tab w1 = av_strerror_tab w"
  | (fresh) c w1 where "avcodec_alloc_context3 w codec = (Some (next_context w), w1)"
      "trace w1 = trace w @ [Ev_avcodec_alloc_context3 codec (Some (next_context w))]"
      "contexts w1 = (contexts w)(next_context w := c)" "next_context w1 = Suc (next_context w)"
      "av_guess_frame_rate_tab w1 = av_guess_frame_rate_tab w"
      "av_strerror_tab w1 = av_strerror_tab w"
proof -
  let ?w1 = "snd (avcodec_alloc_context3 w codec)"
  show ?thesis
  proof (cases "avcodec_alloc_context3_q w")
    case Nil
    then show ?thesis
      by (intro fresh [of ?w1 blank_context])
        (simp_all add: avcodec_alloc_context3_def new_context_def log_def)
  next
    case (Cons a q)
    show ?thesis
    proof (cases a)
      case None
      then show ?thesis
        using Cons by (intro null [of ?w1]) (simp_all add: avcodec_alloc_context3_def log_def)
    next
      case (Some c)
      then show ?thesis
        using Cons
        by (intro fresh [of ?w1 c])
          (simp_all add: avcodec_alloc_context3_def new_context_def log_def)
    qed
  qed
qed

lemma avcodec_open2_trace:
  "trace (snd (avcodec_open2 w h codec)) = trace w @ [Ev_avcodec_open2 h (contexts w h) codec]"
  "contexts (snd (avcodec_open2 w h codec)) = contexts w"
  by (simp_all add: avcodec_open2_def log_def split: list.splits)

section \<open>The codec contexts a run holds\<close>

text \<open>\<open>kept s\<close>: the stream is an audio or a video stream, one that line 197 of the
  source does not drop.\<close>

definition kept :: "AVStream \<Rightarrow> bool" where
  "kept s \<longleftrightarrow> codec_type (codecpar s) = AVMEDIA_TYPE_AUDIO \<or>
     codec_type (codecpar s) = AVMEDIA_TYPE_VIDEO"


text \<open>
  \<open>allocated tr\<close> and \<open>released tr\<close> list the contexts that the calls of the trace
  \<open>tr\<close> allocated and released, in the order of the calls; \<open>held w\<close> are the contexts
  whose addresses the two arrays hold. \<open>accounted L w\<close>: every context allocated so
  far was released once, or is held by the arrays or by the local variables \<open>L\<close> and
  was not released; and no address was given out twice.
\<close>

fun allocated :: "event list \<Rightarrow> nat list" where
  "allocated [] = []"
| "allocated (Ev_avcodec_alloc_context3 c (Some h) # es) = h # allocated es"
| "allocated (e # es) = allocated es"

fun released :: "event list \<Rightarrow> nat list" where
  "released [] = []"
| "released (Ev_avcodec_free_context (Some h) # es) = h # released es"
| "released (e # es) = released es"

fun somes :: "'a option list \<Rightarrow> 'a list" where
  "somes [] = []"
| "somes (None # xs) = somes xs"
| "somes (Some x # xs) = x # somes xs"

definition held :: "world \<Rightarrow> nat multiset" where
  "held w = mset (somes (in_codec_contexts w)) + mset (somes (out_codec_contexts w))"

definition accounted :: "nat multiset \<Rightarrow> world \<Rightarrow> bool" where
  "accounted L w \<longleftrightarrow>
     mset (allocated (trace w)) = mset (released (trace w)) + held w + L \<and>
     list_all (\<lambda>h. h < next_context w) (allocated (trace w)) \<and>
     distinct (allocated (trace w))"

definition ledger where
  "ledger w = (allocated (trace w), released (trace w), next_context w,
     in_codec_contexts w, out_codec_contexts w)"

lemma allocated_append: "allocated (xs @ ys) = allocated xs @ allocated ys"
  by (induction xs rule: allocated.induct) simp_all

lemma released_append: "released (xs @ ys) = released xs @ released ys"
  by (induction xs rule: released.induct) simp_all

lemma accounted_ledger: "ledger w' = ledger w \<Longrightarrow> accounted L w' = accounted L w"
  by (simp add: ledger_def accounted_def held_def)

lemma ledger_neutral:
  "ledger (printf w s) = ledger w"
  "ledger (print_error w d e) = ledger w"
  "ledger (avcodec_free_context w None) = ledger w"
  "ledger (snd (avcodec_parameters_to_context w h par)) = ledger w"
  "ledger (snd (avcodec_open2 w h c)) = ledger w"
  "ledger (snd (avformat_new_stream w)) = ledger w"
  "ledger (snd (avcodec_parameters_from_context w st h)) = ledger w"
  "ledger (snd (avcodec_parameters_copy w st par)) = ledger w"
  by (simp_all add: ledger_def printf_def print_error_def avcodec_free_context_def
      avcodec_parameters_to_context_def avcodec_open2_def avformat_new_stream_def new_stream_def
      avcodec_parameters_from_context_def avcodec_parameters_copy_def log_def
      allocated_append released_append split: list.splits option.splits prod.splits)

lemma ledger_update:
  "ledger (w\<lparr>out_stream_indices := a\<rparr>) = ledger w"
  "ledger (w\<lparr>outfc_streams := b\<rparr>) = ledger w"
  "ledger (w\<lparr>contexts := c\<rparr>) = ledger w"
  by (simp_all add: ledger_def)

lemma accounted_alloc:
  assumes "accounted L w" and "avcodec_alloc_context3 w c = (r, w')"
  shows "case r of None \<Rightarrow> accounted L w'
         | Some h \<Rightarrow> accounted (L + {#h#}) w'"
proof (cases rule: avcodec_alloc_context3_cases [of w c])
  case (null w1)
  then have w': "w' = w1" "r = None" using assms(2) by simp_all
  have "in_codec_contexts w1 = in_codec_contexts w" "out_codec_contexts w1 = out_codec_contexts w"
    using avcodec_alloc_context3_keeps(2,3) [of w c] null(1) by simp_all
  then have "ledger w1 = ledger w"
    using null(2,4) by (simp add: ledger_def allocated_append released_append)
  from accounted_ledger [OF this, of L] show ?thesis
    using assms(1) by (simp add: w')
next
  case (fresh c0 w1)
  then have w': "w' = w1" "r = Some (next_context w)" using assms(2) by simp_all
  have "held w1 = held w"
    using avcodec_alloc_context3_keeps(2,3) [of w c] fresh(1) by (simp add: held_def)
  moreover have "next_context w \<notin> set (allocated (trace w))"
    using assms(1) by (auto simp: accounted_def list_all_iff)
  moreover have "list_all (\<lambda>h. h < Suc (next_context w)) (allocated (trace w))"
    using assms(1) by (auto simp: accounted_def list_all_iff)
  ultimately show ?thesis
    using assms(1) fresh(2,4)
    by (simp add: w' accounted_def allocated_append released_append)
qed

lemma accounted_free:
  "accounted (L + {#h#}) w \<Longrightarrow> accounted L (avcodec_free_context w (Some h))"
  by (simp add: accounted_def avcodec_free_context_def log_def allocated_append
      released_append held_def)

lemma create_decode_context_accounted:
  assumes "accounted L w" and "create_decode_context w c par = (r, w')"
  shows "case r of None \<Rightarrow> accounted L w' | Some h \<Rightarrow> accounted (L + {#h#}) w'"
proof -
  obtain a w1 where al: "avcodec_alloc_context3 w c = (a, w1)"
    by (cases "avcodec_alloc_context3 w c") auto
  note acc1 = accounted_alloc [OF assms(1) al]
  show ?thesis
  proof (cases a)
    case None
    then have "w' = printf w1 (''Failed to allocate memory for input in_stream codec context'' @
        [CHR 0x0A])" "r = None"
      using assms(2) by (simp_all add: create_decode_context_def al)
    then show ?thesis
      using acc1 None by (simp add: accounted_ledger [OF ledger_neutral(1)])
  next
    case (Some h)
    let ?w2 = "snd (avcodec_parameters_to_context w1 h par)"
    let ?w3 = "snd (avcodec_open2 ?w2 h c)"
    have acc2: "accounted (L + {#h#}) ?w2" "accounted (L + {#h#}) ?w3"
      using acc1 Some
      by (simp_all add: accounted_ledger [OF ledger_neutral(4)]
          accounted_ledger [OF ledger_neutral(5)])
    have pe: "accounted L (avcodec_free_context (print_error v d e) (Some h))"
      if "accounted (L + {#h#}) v" for v d e
      using that by (intro accounted_free) (simp add: accounted_ledger [OF ledger_neutral(2)])
    show ?thesis
      using assms(2) acc2 pe [OF acc2(1)] pe [OF acc2(2)]
      by (auto simp: create_decode_context_def al Some split_beta split: if_splits)
  qed
qed

lemma assign_encode_fields_ledger:
  "ledger (assign_encode_fields w outcc incc infc st) = ledger w"
  by (simp add: assign_encode_fields_def Let_def ledger_def)

lemma create_encode_context_accounted:
  assumes "accounted L w" and "create_encode_context w c incc infc st = (r, w')"
  shows "case r of None \<Rightarrow> accounted L w' | Some h \<Rightarrow> accounted (L + {#h#}) w'"
proof -
  obtain a w1 where al: "avcodec_alloc_context3 w c = (a, w1)"
    by (cases "avcodec_alloc_context3 w c") auto
  note acc1 = accounted_alloc [OF assms(1) al]
  show ?thesis
  proof (cases a)
    case None
    then have "w' = printf w1 (''Failed to allocate memory for output in_stream codec context'' @
        [CHR 0x0A])" "r = None"
      using assms(2) by (simp_all add: create_encode_context_def al)
    then show ?thesis
      using acc1 None by (simp add: accounted_ledger [OF ledger_neutral(1)])
  next
    case (Some h)
    let ?w7 = "assign_encode_fields w1 h incc infc st"
    obtain reason w8 where op: "avcodec_open2 ?w7 h c = (reason, w8)"
      by (cases "avcodec_open2 ?w7 h c") auto
    have "ledger w8 = ledger w1"
      using ledger_neutral(5) [of ?w7 h c] unfolding op snd_conv
      by (simp add: assign_encode_fields_ledger)
    from accounted_ledger [OF this, of "L + {#h#}"] have acc8: "accounted (L + {#h#}) w8"
      using acc1 Some by simp
    have "accounted L (avcodec_free_context
        (print_error w8 ''Failed to open output codec context'' reason) (Some h))"
      using acc8 by (intro accounted_free) (simp add: accounted_ledger [OF ledger_neutral(2)])
    then show ?thesis
      using assms(2) acc8
      by (auto simp: create_encode_context_def al Some op split: if_splits)
  qed
qed

lemma somes_update_Some:
  "i < length xs \<Longrightarrow> xs ! i = None \<Longrightarrow> mset (somes (xs[i := Some h])) = mset (somes xs) + {#h#}"
proof (induction xs arbitrary: i)
  case Nil
  then show ?case by simp
next
  case (Cons x xs)
  then show ?case by (cases i; cases x) simp_all
qed

lemma somes_update_None:
  "i < length xs \<Longrightarrow>
     mset (somes xs) =
       mset (somes (xs[i := None])) + (case xs ! i of None \<Rightarrow> {#} | Some h \<Rightarrow> {#h#})"
proof (induction xs arbitrary: i)
  case Nil
  then show ?case by simp
next
  case (Cons x xs)
  then show ?case by (cases i; cases x) simp_all
qed

lemma somes_replicate [simp]: "somes (replicate n None) = []"
  by (induction n) simp_all

lemma accounted_store_in:
  assumes "accounted (L + {#h#}) w" "i < length (in_codec_contexts w)"
    "in_codec_contexts w ! i = None"
  shows "accounted L (w\<lparr>in_codec_contexts := (in_codec_contexts w)[i := Some h]\<rparr>)"
  using assms somes_update_Some [of i "in_codec_contexts w" h]
  by (simp add: accounted_def held_def)

lemma accounted_store_out:
  assumes "accounted (L + {#h#}) w" "i < length (out_codec_contexts w)"
    "out_codec_contexts w ! i = None"
  shows "accounted L (w\<lparr>out_codec_contexts := (out_codec_contexts w)[i := Some h]\<rparr>)"
  using assms somes_update_Some [of i "out_codec_contexts w" h]
  by (simp add: accounted_def held_def)

text \<open>\<open>slots_from i w\<close>: the two arrays have the same length, and their entries from
  index \<open>i\<close> on are null pointers, as \<open>av_calloc\<close> left them.\<close>

definition slots_from :: "nat \<Rightarrow> nat \<Rightarrow> world \<Rightarrow> bool" where
  "slots_from n i w \<longleftrightarrow>
     length (in_codec_contexts w) = n \<and> length (out_codec_contexts w) = n \<and>
     drop i (in_codec_contexts w) = replicate (n - i) None \<and>
     drop i (out_codec_contexts w) = replicate (n - i) None"

lemma replicate_drop_nth:
  fixes xs :: "'a option list"
  assumes "drop i xs = replicate (n - i) None" "i < n" "length xs = n"
  shows "xs ! i = None"
proof -
  have "xs ! i = drop i xs ! 0" using assms(2,3) by simp
  also have "\<dots> = None" unfolding assms(1) using assms(2) by simp
  finally show ?thesis .
qed

lemma slots_from_nth:
  "slots_from n i w \<Longrightarrow> i < n \<Longrightarrow>
     in_codec_contexts w ! i = None \<and> out_codec_contexts w ! i = None"
  by (simp add: slots_from_def replicate_drop_nth)

lemma slots_from_Suc:
  assumes "slots_from n i w" "i < n"
    "length (in_codec_contexts w') = n" "length (out_codec_contexts w') = n"
    "drop (Suc i) (in_codec_contexts w') = drop (Suc i) (in_codec_contexts w)"
    "drop (Suc i) (out_codec_contexts w') = drop (Suc i) (out_codec_contexts w)"
  shows "slots_from n (Suc i) w'"
proof -
  have "drop (Suc i) xs = replicate (n - Suc i) None"
    if "drop i xs = replicate (n - i) None" for xs :: "nat option list"
  proof -
    have "drop (Suc i) xs = drop 1 (drop i xs)" by simp
    also have "\<dots> = replicate (n - Suc i) None"
      unfolding that using assms(2) by (simp add: drop_replicate)
    finally show ?thesis .
  qed
  then show ?thesis
    using assms by (simp add: slots_from_def)
qed

lemma create_streams_iteration_accounted:
  assumes acc: "accounted {#} w" and sl: "slots_from (length (streams infc)) i w"
    and i: "i < length (streams infc)"
    and it: "create_streams_iteration w infc oc i c = (ok, c', w')"
  shows "accounted {#} w' \<and> length (in_codec_contexts w') = length (streams infc) \<and>
         length (out_codec_contexts w') = length (streams infc) \<and>
         drop (Suc i) (in_codec_contexts w') = drop (Suc i) (in_codec_contexts w) \<and>
         drop (Suc i) (out_codec_contexts w') = drop (Suc i) (out_codec_contexts w)"
proof -
  let ?n = "length (streams infc)"
  let ?s = "streams infc ! i"
  have len: "length (in_codec_contexts w) = ?n" "length (out_codec_contexts w) = ?n"
    using sl by (simp_all add: slots_from_def)
  have free: "in_codec_contexts w ! i = None" "out_codec_contexts w ! i = None"
    using slots_from_nth [OF sl i] by simp_all
  have same: "accounted {#} v \<and> length (in_codec_contexts v) = ?n \<and>
      length (out_codec_contexts v) = ?n \<and>
      drop (Suc i) (in_codec_contexts v) = drop (Suc i) (in_codec_contexts w) \<and>
      drop (Suc i) (out_codec_contexts v) = drop (Suc i) (out_codec_contexts w)"
    if "ledger v = ledger w" for v
    using that acc len accounted_ledger [OF that, of "{#}"] by (simp add: ledger_def)
  show ?thesis
  proof (cases "kept ?s")
    case False
    then have "w' = w\<lparr>out_stream_indices := (out_stream_indices w)[i := - 1]\<rparr>"
      using it by (auto simp: create_streams_iteration_def kept_def Let_def)
    then show ?thesis using same [OF ledger_update(1)] by simp
  next
    case True
    show ?thesis
    proof (cases "codec_type (codecpar ?s) = AVMEDIA_TYPE_VIDEO")
      case False
      with True have au: "codec_type (codecpar ?s) = AVMEDIA_TYPE_AUDIO"
        by (simp add: kept_def)
      obtain ns w3 where ns: "avformat_new_stream w = (ns, w3)"
        by (cases "avformat_new_stream w") auto
      have l3: "ledger w3 = ledger w"
        using ledger_neutral(6) [of w] unfolding ns snd_conv .
      have "ledger w' = ledger w"
      proof (cases ns)
        case None
        then have "w' = printf w3 (''Failed to create output in_stream'' @ [CHR 0x0A])"
          using it au by (simp add: create_streams_iteration_def Let_def ns)
        then show ?thesis using l3 by (simp add: ledger_neutral(1))
      next
        case st: (Some out_stream)
        obtain reason w4 where cp:
          "avcodec_parameters_copy w3 out_stream (codecpar ?s) = (reason, w4)"
          by (cases "avcodec_parameters_copy w3 out_stream (codecpar ?s)") auto
        have l4: "ledger w4 = ledger w"
          using ledger_neutral(8) [of w3 out_stream "codecpar ?s"] l3 unfolding cp snd_conv
          by simp
        have "w' = print_error w4
            (''Failed to copy codec parameters to output in_stream'' @ [CHR 0x0A]) reason \<or>
          (\<exists>b. w' = w4\<lparr>out_stream_indices := b\<rparr>)"
          using it au
          by (auto simp: create_streams_iteration_def Let_def ns st cp split: if_splits)
        then show ?thesis
        proof
          assume "w' = print_error w4
            (''Failed to copy codec parameters to output in_stream'' @ [CHR 0x0A]) reason"
          then show ?thesis using l4 by (simp add: ledger_neutral(2))
        next
          assume "\<exists>b. w' = w4\<lparr>out_stream_indices := b\<rparr>"
          then obtain b where "w' = w4\<lparr>out_stream_indices := b\<rparr>" by blast
          then have "ledger w' = ledger w4" by (simp add: ledger_def)
          then show ?thesis using l4 by simp
        qed
      qed
      then show ?thesis by (rule same)
    next
      case vid: True
      show ?thesis
      proof (cases "avcodec_find_decoder w (codec_id (codecpar ?s))")
        case None
        then have "w' = printf w (''Failed to find decoder'' @ [CHR 0x0A])"
          using it vid by (simp add: create_streams_iteration_def Let_def)
        then show ?thesis using same [OF ledger_neutral(1)] by simp
      next
        case (Some in_codec)
        obtain d w1 where dc: "create_decode_context w in_codec (codecpar ?s) = (d, w1)"
          by (cases "create_decode_context w in_codec (codecpar ?s)") auto
        note acc1 = create_decode_context_accounted [OF acc dc]
        have k1: "in_codec_contexts w1 = in_codec_contexts w"
          "out_codec_contexts w1 = out_codec_contexts w"
          using create_decode_context_keeps(2,3) [of w in_codec "codecpar ?s"] by (simp_all add: dc)
        show ?thesis
        proof (cases d)
          case None
          then have "w' = w1"
            using it vid Some by (simp add: create_streams_iteration_def Let_def dc)
          then show ?thesis using acc1 None k1 len by simp
        next
          case (Some incc)
          note d = this
          let ?w1' = "w1\<lparr>in_codec_contexts := (in_codec_contexts w1)[i := Some incc]\<rparr>"
          have acc1': "accounted {#} ?w1'"
            using acc1 d k1 len free i by (intro accounted_store_in) simp_all
          obtain e w2 where ec: "create_encode_context ?w1' oc incc infc ?s = (e, w2)"
            by (cases "create_encode_context ?w1' oc incc infc ?s") auto
          note acc2 = create_encode_context_accounted [OF acc1' ec]
          have k2: "in_codec_contexts w2 = (in_codec_contexts w)[i := Some incc]"
            "out_codec_contexts w2 = out_codec_contexts w"
            using create_encode_context_keeps(2,3) [of ?w1' oc incc infc ?s]
            unfolding ec snd_conv by (simp_all add: k1)
          show ?thesis
          proof (cases e)
            case None
            then have "w' = w2"
              using it vid \<open>avcodec_find_decoder w (codec_id (codecpar ?s)) = Some in_codec\<close>
              by (simp add: create_streams_iteration_def Let_def dc d ec)
            then show ?thesis using acc2 None k2 len by simp
          next
            case (Some outcc)
            let ?w2' = "w2\<lparr>out_codec_contexts := (out_codec_contexts w2)[i := Some outcc]\<rparr>"
            have acc2': "accounted {#} ?w2'"
              using acc2 Some k2 len free i by (intro accounted_store_out) simp_all
            have ar: "length (in_codec_contexts ?w2') = ?n" "length (out_codec_contexts ?w2') = ?n"
              "drop (Suc i) (in_codec_contexts ?w2') = drop (Suc i) (in_codec_contexts w)"
              "drop (Suc i) (out_codec_contexts ?w2') = drop (Suc i) (out_codec_contexts w)"
              using k2 len by simp_all
            have keep: "accounted {#} v \<and> length (in_codec_contexts v) = ?n \<and>
                length (out_codec_contexts v) = ?n \<and>
                drop (Suc i) (in_codec_contexts v) = drop (Suc i) (in_codec_contexts w) \<and>
                drop (Suc i) (out_codec_contexts v) = drop (Suc i) (out_codec_contexts w)"
              if "ledger v = ledger ?w2'" for v
              using that acc2' ar accounted_ledger [OF that, of "{#}"] by (simp add: ledger_def)
            obtain ns w3 where ns: "avformat_new_stream ?w2' = (ns, w3)"
              by (cases "avformat_new_stream ?w2'") auto
            have l3: "ledger w3 = ledger ?w2'"
              using ledger_neutral(6) [of ?w2'] unfolding ns snd_conv .
            note fd = \<open>avcodec_find_decoder w (codec_id (codecpar ?s)) = Some in_codec\<close>
            have "ledger w' = ledger ?w2'"
            proof (cases ns)
              case None
              then have "w' = printf w3 (''Failed to create output in_stream'' @ [CHR 0x0A])"
                using it vid fd
                by (simp add: create_streams_iteration_def Let_def dc d ec Some ns)
              then show ?thesis using l3 by (simp add: ledger_neutral(1))
            next
              case st: (Some out_stream)
              obtain reason w4 where fc:
                "avcodec_parameters_from_context w3 out_stream outcc = (reason, w4)"
                by (cases "avcodec_parameters_from_context w3 out_stream outcc") auto
              have l4: "ledger w4 = ledger ?w2'"
                using ledger_neutral(7) [of w3 out_stream outcc] l3 unfolding fc snd_conv by simp
              have "w' = print_error w4
                  (''Failed to copy codec parameters from codec context to output in_stream'' @
                     [CHR 0x0A]) reason \<or>
                (\<exists>a b. w' = w4\<lparr>outfc_streams := a, out_stream_indices := b\<rparr>)"
                using it vid fd
                by (auto simp: create_streams_iteration_def Let_def dc d ec Some ns st fc
                    split: if_splits)
              then show ?thesis
              proof
                assume "w' = print_error w4
                  (''Failed to copy codec parameters from codec context to output in_stream'' @
                     [CHR 0x0A]) reason"
                then show ?thesis using l4 by (simp add: ledger_neutral(2))
              next
                assume "\<exists>a b. w' = w4\<lparr>outfc_streams := a, out_stream_indices := b\<rparr>"
                then obtain a b where "w' = w4\<lparr>outfc_streams := a, out_stream_indices := b\<rparr>"
                  by blast
                then have "ledger w' = ledger w4" by (simp add: ledger_def)
                then show ?thesis using l4 by simp
              qed
            qed
            then show ?thesis by (rule keep)
          qed
        qed
      qed
    qed
  qed
qed

lemma create_streams_loop_accounted:
  "accounted {#} w \<Longrightarrow> slots_from (length (streams infc)) i w \<Longrightarrow>
   create_streams_loop w infc oc i c = (ok, w') \<Longrightarrow>
   accounted {#} w' \<and> length (in_codec_contexts w') = length (streams infc) \<and>
   length (out_codec_contexts w') = length (streams infc)"
proof (induction w infc oc i c rule: create_streams_loop.induct)
  case (1 w infc out_codec i stream_count)
  show ?case
  proof (cases "i < length (streams infc)")
    case False
    then have "w' = w" using "1.prems"(3) by (simp add: create_streams_loop.simps)
    then show ?thesis using "1.prems"(1,2) by (simp add: slots_from_def)
  next
    case True
    obtain k c' w1 where it: "create_streams_iteration w infc out_codec i stream_count = (k, c', w1)"
      by (cases "create_streams_iteration w infc out_codec i stream_count") auto
    note step = create_streams_iteration_accounted [OF "1.prems"(1,2) True it]
    show ?thesis
    proof (cases k)
      case False
      then have "w' = w1"
        using "1.prems"(3) True by (simp add: create_streams_loop.simps [of w] it)
      then show ?thesis using step by simp
    next
      case k: True
      then have loop: "create_streams_loop w1 infc out_codec (Suc i) c' = (ok, w')"
        using "1.prems"(3) True by (simp add: create_streams_loop.simps [of w] it)
      have sl: "slots_from (length (streams infc)) (Suc i) w1"
        using step by (intro slots_from_Suc [OF "1.prems"(2) True]) simp_all
      show ?thesis
        using step k
        by (intro "1.IH" [OF True it [symmetric] _ refl _ sl loop]) simp_all
    qed
  qed
qed

lemma free_contexts_at_accounted:
  assumes "accounted {#} w" "i < length (in_codec_contexts w)" "i < length (out_codec_contexts w)"
  shows "accounted {#} (free_contexts_at w i) \<and>
         in_codec_contexts (free_contexts_at w i) = (in_codec_contexts w)[i := None] \<and>
         out_codec_contexts (free_contexts_at w i) = (out_codec_contexts w)[i := None]"
proof -
  have ar: "in_codec_contexts (free_contexts_at w i) = (in_codec_contexts w)[i := None]"
    "out_codec_contexts (free_contexts_at w i) = (out_codec_contexts w)[i := None]"
    "next_context (free_contexts_at w i) = next_context w"
    "allocated (trace (free_contexts_at w i)) = allocated (trace w)"
    by (simp_all add: free_contexts_at_def Let_def avcodec_free_context_def log_def
        allocated_append)
  have rel: "mset (released (trace (free_contexts_at w i))) =
      mset (released (trace w)) +
        (case in_codec_contexts w ! i of None \<Rightarrow> {#} | Some h \<Rightarrow> {#h#}) +
        (case out_codec_contexts w ! i of None \<Rightarrow> {#} | Some h \<Rightarrow> {#h#})"
    by (simp add: free_contexts_at_def Let_def avcodec_free_context_def log_def
        released_append split: option.splits)
  have "held w = held (free_contexts_at w i) +
      (case in_codec_contexts w ! i of None \<Rightarrow> {#} | Some h \<Rightarrow> {#h#}) +
      (case out_codec_contexts w ! i of None \<Rightarrow> {#} | Some h \<Rightarrow> {#h#})"
    using somes_update_None [OF assms(2)] somes_update_None [OF assms(3)]
    by (simp add: held_def ar)
  then show ?thesis
    using assms(1) by (simp add: accounted_def ar rel)
qed

lemma update_at_boundary:
  "k < length xs \<Longrightarrow>
     (replicate k v @ drop k xs)[k := v] = replicate (Suc k) v @ drop (Suc k) xs"
proof -
  assume k: "k < length xs"
  have "drop k xs = xs ! k # drop (Suc k) xs"
    using k by (simp add: Cons_nth_drop_Suc)
  then show ?thesis
    by (simp add: list_update_append replicate_app_Cons_same)
qed

lemma create_streams_failure_accounted:
  "accounted {#} w \<Longrightarrow> length (in_codec_contexts w) = n \<Longrightarrow>
   length (out_codec_contexts w) = n \<Longrightarrow> k \<le> n \<Longrightarrow>
   accounted {#} (foldl free_contexts_at w [0..<k]) \<and>
   in_codec_contexts (foldl free_contexts_at w [0..<k]) =
     replicate k None @ drop k (in_codec_contexts w) \<and>
   out_codec_contexts (foldl free_contexts_at w [0..<k]) =
     replicate k None @ drop k (out_codec_contexts w)"
proof (induction k)
  case 0
  then show ?case by simp
next
  case (Suc k)
  let ?v = "foldl free_contexts_at w [0..<k]"
  have ih: "accounted {#} ?v"
    "in_codec_contexts ?v = replicate k None @ drop k (in_codec_contexts w)"
    "out_codec_contexts ?v = replicate k None @ drop k (out_codec_contexts w)"
    using Suc by simp_all
  have len: "k < length (in_codec_contexts ?v)" "k < length (out_codec_contexts ?v)"
    using Suc.prems by (simp_all add: ih)
  have k: "k < length (in_codec_contexts w)" "k < length (out_codec_contexts w)"
    using Suc.prems by simp_all
  show ?case
    using free_contexts_at_accounted [OF ih(1) len]
    by (simp add: ih(2,3) update_at_boundary [OF k(1)] update_at_boundary [OF k(2)])
qed

text \<open>\<open>all_released w\<close>: the contexts released so far are those allocated so far, each
  allocated and released once, and the two arrays hold null pointers only.\<close>

definition all_released :: "world \<Rightarrow> bool" where
  "all_released w \<longleftrightarrow>
     mset (released (trace w)) = mset (allocated (trace w)) \<and>
     distinct (allocated (trace w)) \<and> distinct (released (trace w)) \<and>
     list_all (\<lambda>p. p = None) (in_codec_contexts w) \<and>
     list_all (\<lambda>p. p = None) (out_codec_contexts w)"

text \<open>\<open>fresh_start infc w\<close>: no call has been made, and the arrays are as
  \<open>create_streams_and_transcode\<close> allocates them with \<open>av_calloc\<close>: one null pointer
  for each stream of the input.\<close>

definition fresh_start :: "AVFormatContext \<Rightarrow> world \<Rightarrow> bool" where
  "fresh_start infc w \<longleftrightarrow>
     trace w = [] \<and>
     in_codec_contexts w = replicate (length (streams infc)) None \<and>
     out_codec_contexts w = replicate (length (streams infc)) None"

lemma fresh_start_accounted:
  "fresh_start infc w \<Longrightarrow> accounted {#} w \<and> slots_from (length (streams infc)) 0 w"
  by (simp add: fresh_start_def accounted_def held_def slots_from_def)

lemma all_released_once:
  assumes "all_released w" "h \<in> set (allocated (trace w))"
  shows "count_list (released (trace w)) h = 1"
proof -
  have "count (mset (released (trace w))) h = count (mset (allocated (trace w))) h"
    using assms(1) by (simp add: all_released_def)
  also have "\<dots> = 1"
    using assms by (simp add: all_released_def distinct_count_atmost_1)
  finally show ?thesis by (simp add: count_mset)
qed

lemma create_streams_failure_released:
  assumes "fresh_start infc w" and "fst (create_streams w infc oc) \<noteq> 0"
  shows "all_released (snd (create_streams w infc oc))"
proof -
  let ?n = "length (streams infc)"
  obtain ok w1 where lp: "create_streams_loop w infc oc 0 (- 1) = (ok, w1)"
    by (cases "create_streams_loop w infc oc 0 (- 1)") auto
  have ok: "\<not> ok" and res: "snd (create_streams w infc oc) = create_streams_failure w1 infc"
    using assms(2) by (auto simp: create_streams_def lp split: bool.splits)
  note fs = fresh_start_accounted [OF assms(1)]
  have w1: "accounted {#} w1" "length (in_codec_contexts w1) = ?n"
    "length (out_codec_contexts w1) = ?n"
    using create_streams_loop_accounted [OF fs [THEN conjunct1] fs [THEN conjunct2] lp]
    by simp_all
  let ?w' = "foldl free_contexts_at w1 [0..<?n]"
  have f: "accounted {#} ?w'" "in_codec_contexts ?w' = replicate ?n None"
    "out_codec_contexts ?w' = replicate ?n None"
    using create_streams_failure_accounted [OF w1 order_refl] w1(2,3) by simp_all
  have m: "mset (released (trace ?w')) = mset (allocated (trace ?w'))"
    "distinct (allocated (trace ?w'))"
    using f by (simp_all add: accounted_def held_def)
  have "distinct (released (trace ?w'))"
    using m by (metis distinct_count_atmost_1 count_mset set_mset_mset mset_eq_setD)
  then show ?thesis
    using m f(2,3)
    by (simp add: res create_streams_failure_def all_released_def list_all_iff)
qed

lemma create_streams_result:
  "fst (create_streams w infc oc) = (if fst (create_streams_loop w infc oc 0 (- 1)) then 0 else - 1)"
  by (simp add: create_streams_def split: prod.splits bool.splits)

section \<open>Claims about the set-up phase\<close>

subsection \<open>C9: the fields of a new encode context\<close>

text \<open>
  C9: when \<open>create_encode_context\<close> returns a context for a decode context \<open>incc\<close>
  that was allocated before the call, its calls are the allocation and
  \<open>avcodec_open2\<close> against the codec it was given, and at the call of
  \<open>avcodec_open2\<close> the context carries the width, the height, the sample aspect ratio,
  the pixel format and the bit rate of \<open>incc\<close> and, as its time base, the inverse of
  the frame rate that \<open>av_guess_frame_rate\<close> gives for the input container and stream.
\<close>

theorem create_encode_context_fields:
  assumes "create_encode_context w out_codec incc infc in_stream = (Some outcc, w')"
    and "incc < next_context w"
  shows "\<exists>c. new_events w w' =
           [Ev_avcodec_alloc_context3 out_codec (Some outcc), Ev_avcodec_open2 outcc c out_codec] \<and>
         trace w' = trace w @ new_events w w' \<and>
         width c = width (contexts w incc) \<and>
         height c = height (contexts w incc) \<and>
         sample_aspect_ratio c = sample_aspect_ratio (contexts w incc) \<and>
         pix_fmt c = pix_fmt (contexts w incc) \<and>
         bit_rate c = bit_rate (contexts w incc) \<and>
         time_base c = av_inv_q (av_guess_frame_rate w infc in_stream) \<and>
         contexts w' outcc = c \<and> contexts w' incc = contexts w incc"
proof (cases rule: avcodec_alloc_context3_cases [of w out_codec])
  case (null w1)
  then show ?thesis
    using assms(1) by (simp add: create_encode_context_def)
next
  case (fresh c0 w1)
  let ?h = "next_context w"
  let ?c = "c0\<lparr>width := width (contexts w incc), height := height (contexts w incc),
      sample_aspect_ratio := sample_aspect_ratio (contexts w incc),
      pix_fmt := pix_fmt (contexts w incc), bit_rate := bit_rate (contexts w incc),
      time_base := av_inv_q (av_guess_frame_rate w infc in_stream)\<rparr>"
  let ?w7 = "w1\<lparr>contexts := (contexts w)(?h := ?c)\<rparr>"
  have ne: "incc \<noteq> ?h" using assms(2) by simp
  have eq: "create_encode_context w out_codec incc infc in_stream =
      (case avcodec_open2 ?w7 ?h out_codec of
         (reason, w8) \<Rightarrow>
           if reason \<noteq> 0 then
             (None, avcodec_free_context
                      (print_error w8 ''Failed to open output codec context'' reason) (Some ?h))
           else (Some ?h, w8))"
    using ne fresh
    by (simp add: create_encode_context_def assign_encode_fields_def Let_def
        av_guess_frame_rate_def fun_upd_twist)
  obtain r w8 where op: "avcodec_open2 ?w7 ?h out_codec = (r, w8)"
    by (cases "avcodec_open2 ?w7 ?h out_codec") auto
  have w8: "trace w8 = trace w @
      [Ev_avcodec_alloc_context3 out_codec (Some ?h), Ev_avcodec_open2 ?h ?c out_codec]"
    "contexts w8 = (contexts w)(?h := ?c)"
    using avcodec_open2_trace [of ?w7 ?h out_codec] unfolding op snd_conv
    by (simp_all add: fresh)
  have res: "outcc = ?h" "w' = w8"
    using assms(1) unfolding eq op by (simp_all split: if_splits)
  show ?thesis
    using ne by (intro exI [of _ ?c]) (simp add: res w8 new_events_eq [OF w8(1)])
qed

definition w_c9 :: world where
  "w_c9 = idle_world\<lparr>
     contexts := (\<lambda>_. blank_context)
       (0 := \<lparr>width = 1920, height = 1080, sample_aspect_ratio = (1, 1), pix_fmt = 0,
               bit_rate = 4000000, time_base = (1, 90000)\<rparr>),
     next_context := 1,
     av_guess_frame_rate_tab := (\<lambda>_ _. (30000, 1001))\<rparr>"

theorem create_encode_context_fields_witness:
  "(0 :: nat) < next_context w_c9 \<and>
   fst (create_encode_context w_c9 7 0 infc_c2 video_stream) = Some 1 \<and>
   (\<exists>c. new_events w_c9 (snd (create_encode_context w_c9 7 0 infc_c2 video_stream)) =
          [Ev_avcodec_alloc_context3 7 (Some 1), Ev_avcodec_open2 1 c 7] \<and>
        width c = 1920 \<and> height c = 1080 \<and> sample_aspect_ratio c = (1, 1) \<and>
        pix_fmt c = 0 \<and> bit_rate c = 4000000 \<and> time_base c = (1001, 30000))"
proof -
  have h0: "fst (create_encode_context w_c9 7 0 infc_c2 video_stream) = Some 1"
    by (simp add: w_c9_def idle_world_def setup_defs)
  then have h1: "create_encode_context w_c9 7 0 infc_c2 video_stream =
      (Some 1, snd (create_encode_context w_c9 7 0 infc_c2 video_stream))"
    by (simp add: prod_eq_iff)
  have h2: "(0 :: nat) < next_context w_c9"
    by (simp add: w_c9_def idle_world_def)
  have c0: "contexts w_c9 0 = \<lparr>width = 1920, height = 1080, sample_aspect_ratio = (1, 1),
      pix_fmt = 0, bit_rate = 4000000, time_base = (1, 90000)\<rparr>"
    "av_guess_frame_rate w_c9 infc_c2 video_stream = (30000, 1001)"
    by (simp_all add: w_c9_def idle_world_def av_guess_frame_rate_def)
  show ?thesis
    using create_encode_context_fields [OF h1 h2] h0 h2
    by (simp add: c0 av_inv_q_def)
qed

subsection \<open>C4: the stream index map\<close>

text \<open>\<open>index_map c ss\<close> is the map the specification describes for the streams
  \<open>ss\<close>, when \<open>c\<close> is the last index given out: DROPPED (\<open>-1\<close>) for a stream that
  is not kept, and the next index for a kept one.\<close>

fun index_map :: "int \<Rightarrow> AVStream list \<Rightarrow> int list" where
  "index_map c [] = []"
| "index_map c (s # ss) =
     (if kept s then (c + 1) # index_map (c + 1) ss else (- 1) # index_map c ss)"

lemma index_map_snoc:
  "index_map c (ss @ [s]) =
     index_map c ss @ [if kept s then c + int (length (filter kept ss)) + 1 else - 1]"
  by (induction ss arbitrary: c) auto

lemma length_index_map [simp]: "length (index_map c ss) = length ss"
  by (induction ss arbitrary: c) auto

lemma index_map_dense:
  "- 1 \<le> c \<Longrightarrow>
     filter (\<lambda>v. v \<noteq> - 1) (index_map c ss) =
       map (\<lambda>j. c + 1 + int j) [0..<length (filter kept ss)]"
proof (induction ss arbitrary: c)
  case Nil
  then show ?case by simp
next
  case (Cons s ss)
  show ?case
  proof (cases "kept s")
    case True
    have "map (\<lambda>j. c + 1 + int j) [0..<Suc (length (filter kept ss))] =
        (c + 1) # map (\<lambda>j. c + 1 + 1 + int j) [0..<length (filter kept ss)]"
      by (simp add: upt_conv_Cons map_Suc_upt [symmetric] del: upt_Suc)
    moreover have "filter (\<lambda>v. v \<noteq> - 1) (index_map (c + 1) ss) =
        map (\<lambda>j. c + 1 + 1 + int j) [0..<length (filter kept ss)]"
      using Cons.prems by (intro Cons.IH) simp
    ultimately show ?thesis using True Cons.prems by simp
  next
    case False
    then show ?thesis using Cons by simp
  qed
qed

lemma index_map_nth:
  "- 1 \<le> c \<Longrightarrow> i < length ss \<Longrightarrow> (index_map c ss ! i = - 1) = (\<not> kept (ss ! i))"
proof (induction ss arbitrary: c i)
  case Nil
  then show ?case by simp
next
  case (Cons s ss)
  show ?case
  proof (cases i)
    case 0
    then show ?thesis using Cons.prems by simp
  next
    case (Suc j)
    then have "j < length ss" using Cons.prems by simp
    then have "(index_map (c + 1) ss ! j = - 1) = (\<not> kept (ss ! j))"
      "(index_map c ss ! j = - 1) = (\<not> kept (ss ! j))"
      using Cons.prems by (simp_all add: Cons.IH)
    then show ?thesis using Suc by simp
  qed
qed

lemma create_streams_iteration_indices:
  assumes "create_streams_iteration w infc oc i c = (True, c', w')"
  shows "out_stream_indices w' =
           (out_stream_indices w)[i := if kept (streams infc ! i) then c + 1 else - 1] \<and>
         c' = (if kept (streams infc ! i) then c + 1 else c)"
proof (cases "kept (streams infc ! i)")
  case False
  then show ?thesis
    using assms by (auto simp: create_streams_iteration_def kept_def Let_def)
next
  case True
  show ?thesis
  proof (cases "codec_type (codecpar (streams infc ! i)) = AVMEDIA_TYPE_VIDEO")
    case True
    then show ?thesis
      using assms
      by (auto simp: create_streams_iteration_def kept_def Let_def split_beta setup_keeps
          create_decode_context_keeps create_encode_context_keeps
          split: option.splits if_splits)
  next
    case False
    with True have "codec_type (codecpar (streams infc ! i)) = AVMEDIA_TYPE_AUDIO"
      by (simp add: kept_def)
    then show ?thesis
      using assms True
      by (auto simp: create_streams_iteration_def Let_def split_beta setup_keeps
          split: option.splits if_splits)
  qed
qed

lemma create_streams_loop_indices:
  "create_streams_loop w infc oc i c = (True, w') \<Longrightarrow>
   i \<le> length (streams infc) \<Longrightarrow>
   length (out_stream_indices w) = length (streams infc) \<Longrightarrow>
   take i (out_stream_indices w) = index_map (- 1) (take i (streams infc)) \<Longrightarrow>
   c = int (length (filter kept (take i (streams infc)))) - 1 \<Longrightarrow>
   out_stream_indices w' = index_map (- 1) (streams infc)"
proof (induction w infc oc i c rule: create_streams_loop.induct)
  case (1 w infc out_codec i stream_count)
  show ?case
  proof (cases "i < length (streams infc)")
    case False
    then have "w' = w" "i = length (streams infc)"
      using "1.prems"(1,2) by (simp_all add: create_streams_loop.simps)
    then show ?thesis using "1.prems"(3,4) by simp
  next
    case True
    obtain ok c' w1 where it: "create_streams_iteration w infc out_codec i stream_count = (ok, c', w1)"
      by (cases "create_streams_iteration w infc out_codec i stream_count") auto
    have ok: "ok" and loop: "create_streams_loop w1 infc out_codec (Suc i) c' = (True, w')"
      using "1.prems"(1) True
      by (auto simp: create_streams_loop.simps [of w] it split: if_splits bool.splits)
    let ?s = "streams infc ! i"
    let ?v = "if kept ?s then stream_count + 1 else - 1"
    have ind: "out_stream_indices w1 = (out_stream_indices w)[i := ?v]"
      and c': "c' = (if kept ?s then stream_count + 1 else stream_count)"
      using create_streams_iteration_indices [OF it [unfolded ok [THEN eqTrueI]]] by simp_all
    have tk: "take (Suc i) (streams infc) = take i (streams infc) @ [?s]"
      using True by (simp add: take_Suc_conv_app_nth)
    have "take (Suc i) (out_stream_indices w1) = take i (out_stream_indices w) @ [?v]"
      using True "1.prems"(3) by (simp add: ind take_Suc_conv_app_nth)
    also have "\<dots> = index_map (- 1) (take (Suc i) (streams infc))"
      using "1.prems"(4,5) by (simp add: tk index_map_snoc)
    finally have a: "take (Suc i) (out_stream_indices w1) =
        index_map (- 1) (take (Suc i) (streams infc))" .
    have b: "c' = int (length (filter kept (take (Suc i) (streams infc)))) - 1"
      using "1.prems"(5) by (simp add: c' tk)
    have len: "length (out_stream_indices w1) = length (streams infc)"
      using "1.prems"(3) by (simp add: ind)
    show ?thesis
      using True ok
      by (intro "1.IH" [OF True it [symmetric] _ refl loop _ len a b]) simp_all
  qed
qed

text \<open>
  C4: when \<open>create_streams\<close> succeeds on arrays that have one entry for each input
  stream, the stream index map it leaves is the map of the specification: an entry is
  DROPPED (\<open>-1\<close>) exactly for the streams that are neither audio nor video, and the
  other entries, read in the order of the input streams, are \<open>0, 1, \<dots>, k - 1\<close> for
  the number \<open>k\<close> of kept streams; so their set is \<open>{0, \<dots>, k - 1}\<close>.
\<close>

theorem create_streams_index_map:
  assumes "fst (create_streams w infc out_codec) = 0"
    and "length (out_stream_indices w) = length (streams infc)"
  shows "(let idx = out_stream_indices (snd (create_streams w infc out_codec));
              k = length (filter kept (streams infc))
          in idx = index_map (- 1) (streams infc) \<and>
             length idx = length (streams infc) \<and>
             (\<forall>i < length (streams infc). (idx ! i = - 1) = (\<not> kept (streams infc ! i))) \<and>
             filter (\<lambda>v. v \<noteq> - 1) idx = map int [0..<k] \<and>
             {v \<in> set idx. v \<noteq> - 1} = int ` {0..<k})"
proof -
  obtain ok w1 where lp: "create_streams_loop w infc out_codec 0 (- 1) = (ok, w1)"
    by (cases "create_streams_loop w infc out_codec 0 (- 1)") auto
  have ok: "ok" and res: "snd (create_streams w infc out_codec) = w1"
    using assms(1) by (auto simp: create_streams_def lp split: if_splits bool.splits)
  have idx: "out_stream_indices w1 = index_map (- 1) (streams infc)"
    using lp assms(2) ok by (intro create_streams_loop_indices [of w infc out_codec 0 "- 1" w1]) simp_all
  have dense: "filter (\<lambda>v. v \<noteq> - 1) (index_map (- 1) (streams infc)) =
      map int [0..<length (filter kept (streams infc))]"
    using index_map_dense [of "- 1" "streams infc"] by simp
  have "{v \<in> set (index_map (- 1) (streams infc)). v \<noteq> - 1} =
      set (filter (\<lambda>v. v \<noteq> - 1) (index_map (- 1) (streams infc)))"
    by auto
  also have "\<dots> = int ` {0..<length (filter kept (streams infc))}"
    unfolding dense by simp
  finally show ?thesis
    using dense by (simp add: Let_def res idx index_map_nth)
qed

definition w_c4 :: world where
  "w_c4 = idle_world\<lparr>
     avcodec_find_decoder_tab := (\<lambda>cid. if cid = 27 then Some 27 else None),
     out_stream_indices := [7, 7, 7],
     in_codec_contexts := [None, None, None],
     out_codec_contexts := [None, None, None]\<rparr>"

theorem create_streams_index_map_witness:
  "length (out_stream_indices w_c4) = length (streams infc_c8) \<and>
   fst (create_streams w_c4 infc_c8 5) = 0 \<and>
   out_stream_indices (snd (create_streams w_c4 infc_c8 5)) = [- 1, 0, 1] \<and>
   filter (\<lambda>v. v \<noteq> - 1) (out_stream_indices (snd (create_streams w_c4 infc_c8 5))) =
     map int [0..<length (filter kept (streams infc_c8))]"
proof -
  have h: "fst (create_streams w_c4 infc_c8 5) = 0"
    by (simp add: w_c4_def infc_c8_def idle_world_def setup_defs subtitle_stream_def
        video_stream_def audio_stream_def)
  have l: "length (out_stream_indices w_c4) = length (streams infc_c8)"
    by (simp add: w_c4_def infc_c8_def idle_world_def)
  have k: "index_map (- 1) (streams infc_c8) = [- 1, 0, 1]"
    by (simp add: infc_c8_def kept_def subtitle_stream_def video_stream_def audio_stream_def)
  have a: "out_stream_indices (snd (create_streams w_c4 infc_c8 5)) =
      index_map (- 1) (streams infc_c8)"
    and d: "filter (\<lambda>v. v \<noteq> - 1) (out_stream_indices (snd (create_streams w_c4 infc_c8 5))) =
      map int [0..<length (filter kept (streams infc_c8))]"
    using create_streams_index_map [OF h l] unfolding Let_def by blast+
  show ?thesis
  proof (intro conjI)
    show "out_stream_indices (snd (create_streams w_c4 infc_c8 5)) = [- 1, 0, 1]"
      using a k by simp
  qed (fact l h d)+
qed

subsection \<open>C6: a failure while the output stream of stream \<open>i\<close> is set up\<close>

text \<open>
  \<open>create_streams_prefix w infc out_codec i\<close>: the value of \<open>stream_count\<close> and the
  world after the loop of \<open>create_streams\<close> has processed the streams \<open>0, \<dots>, i - 1\<close>
  without a failure, and \<open>None\<close> when one of them failed.
  \<open>output_setup_fails s w\<close>: the stream \<open>s\<close> is kept, and the next answer of
  \<open>avformat_new_stream\<close> is the null pointer or the next answer of the copy of the codec
  parameters for a stream of its kind (\<open>avcodec_parameters_from_context\<close> for video,
  \<open>avcodec_parameters_copy\<close> for audio) is a nonzero status.
\<close>

fun create_streams_prefix ::
  "world \<Rightarrow> AVFormatContext \<Rightarrow> AVCodec \<Rightarrow> nat \<Rightarrow> (int \<times> world) option" where
  "create_streams_prefix w infc out_codec 0 = Some (- 1, w)"
| "create_streams_prefix w infc out_codec (Suc j) =
     (case create_streams_prefix w infc out_codec j of
        None \<Rightarrow> None
      | Some (stream_count, w1) \<Rightarrow>
          (case create_streams_iteration w1 infc out_codec j stream_count of
             (True, stream_count', w2) \<Rightarrow> Some (stream_count', w2)
           | (False, _, _) \<Rightarrow> None))"

definition output_setup_fails :: "AVStream \<Rightarrow> world \<Rightarrow> bool" where
  "output_setup_fails s w \<longleftrightarrow>
     kept s \<and>
     ((case avformat_new_stream_q w of None # _ \<Rightarrow> True | _ \<Rightarrow> False) \<or>
      (if codec_type (codecpar s) = AVMEDIA_TYPE_VIDEO
       then (case avcodec_parameters_from_context_q w of (r, _) # _ \<Rightarrow> r \<noteq> 0 | [] \<Rightarrow> False)
       else (case avcodec_parameters_copy_q w of r # _ \<Rightarrow> r \<noteq> 0 | [] \<Rightarrow> False)))"

lemma create_streams_loop_prefix:
  "create_streams_prefix w infc oc j = Some (c, w1) \<Longrightarrow> j \<le> length (streams infc) \<Longrightarrow>
     create_streams_loop w infc oc 0 (- 1) = create_streams_loop w1 infc oc j c"
proof (induction j arbitrary: c w1)
  case 0
  then show ?case by simp
next
  case (Suc j)
  from Suc.prems(1) obtain c0 w0 where
    p: "create_streams_prefix w infc oc j = Some (c0, w0)"
    and it: "create_streams_iteration w0 infc oc j c0 = (True, c, w1)"
    by (auto split: option.splits prod.splits bool.splits)
  have "create_streams_loop w infc oc 0 (- 1) = create_streams_loop w0 infc oc j c0"
    using Suc.prems(2) by (intro Suc.IH [OF p]) simp
  also have "\<dots> = create_streams_loop w1 infc oc (Suc j) c"
    using Suc.prems(2) by (simp add: create_streams_loop.simps [of w0] it)
  finally show ?case .
qed

lemma avformat_new_stream_fails:
  "(case avformat_new_stream_q w of None # _ \<Rightarrow> True | _ \<Rightarrow> False) \<Longrightarrow>
     fst (avformat_new_stream w) = None"
  by (auto simp: avformat_new_stream_def split: list.splits option.splits)

lemma avcodec_parameters_copy_fails:
  "(case avcodec_parameters_copy_q w of r # _ \<Rightarrow> r \<noteq> 0 | [] \<Rightarrow> False) \<Longrightarrow>
     fst (avcodec_parameters_copy w st par) \<noteq> 0"
  by (auto simp: avcodec_parameters_copy_def split: list.splits)

lemma avcodec_parameters_from_context_fails:
  "(case avcodec_parameters_from_context_q w of (r, _) # _ \<Rightarrow> r \<noteq> 0 | [] \<Rightarrow> False) \<Longrightarrow>
     fst (avcodec_parameters_from_context w st h) \<noteq> 0"
  by (auto simp: avcodec_parameters_from_context_def split: list.splits)

lemma create_streams_iteration_fails:
  assumes "output_setup_fails (streams infc ! i) w"
  shows "\<not> fst (create_streams_iteration w infc oc i c)"
proof -
  let ?s = "streams infc ! i"
  have kept: "kept ?s" using assms by (simp add: output_setup_fails_def)
  show ?thesis
  proof (cases "codec_type (codecpar ?s) = AVMEDIA_TYPE_VIDEO")
    case False
    with kept have au: "codec_type (codecpar ?s) = AVMEDIA_TYPE_AUDIO" by (simp add: kept_def)
    obtain ns w3 where ns: "avformat_new_stream w = (ns, w3)"
      by (cases "avformat_new_stream w") auto
    show ?thesis
    proof (cases ns)
      case None
      then show ?thesis
        using au by (simp add: create_streams_iteration_def Let_def ns)
    next
      case (Some out_stream)
      then have "\<not> (case avformat_new_stream_q w of None # _ \<Rightarrow> True | _ \<Rightarrow> False)"
        using avformat_new_stream_fails [of w] ns by auto
      then have "case avcodec_parameters_copy_q w of r # _ \<Rightarrow> r \<noteq> 0 | [] \<Rightarrow> False"
        using assms au by (simp add: output_setup_fails_def)
      moreover have "avcodec_parameters_copy_q w3 = avcodec_parameters_copy_q w"
        using avformat_new_stream_keeps(5) [of w] by (simp add: ns)
      ultimately have "fst (avcodec_parameters_copy w3 out_stream (codecpar ?s)) \<noteq> 0"
        by (intro avcodec_parameters_copy_fails) simp
      then show ?thesis
        using au by (simp add: create_streams_iteration_def Let_def ns Some split_beta)
    qed
  next
    case vid: True
    show ?thesis
    proof (cases "avcodec_find_decoder w (codec_id (codecpar ?s))")
      case None
      then show ?thesis using vid by (simp add: create_streams_iteration_def Let_def)
    next
      case fd: (Some in_codec)
      obtain d w1 where dc: "create_decode_context w in_codec (codecpar ?s) = (d, w1)"
        by (cases "create_decode_context w in_codec (codecpar ?s)") auto
      show ?thesis
      proof (cases d)
        case None
        then show ?thesis using vid fd by (simp add: create_streams_iteration_def Let_def dc)
      next
        case d: (Some incc)
        let ?w1' = "w1\<lparr>in_codec_contexts := (in_codec_contexts w1)[i := Some incc]\<rparr>"
        obtain e w2 where ec: "create_encode_context ?w1' oc incc infc ?s = (e, w2)"
          by (cases "create_encode_context ?w1' oc incc infc ?s") auto
        show ?thesis
        proof (cases e)
          case None
          then show ?thesis
            using vid fd by (simp add: create_streams_iteration_def Let_def dc d ec)
        next
          case e: (Some outcc)
          let ?w2' = "w2\<lparr>out_codec_contexts := (out_codec_contexts w2)[i := Some outcc]\<rparr>"
          have q: "avformat_new_stream_q ?w2' = avformat_new_stream_q w"
            "avcodec_parameters_from_context_q ?w2' = avcodec_parameters_from_context_q w"
            using create_decode_context_keeps(5,7) [of w in_codec "codecpar ?s"]
              create_encode_context_keeps(5,7) [of ?w1' oc incc infc ?s]
            unfolding dc ec snd_conv by simp_all
          obtain ns w3 where ns: "avformat_new_stream ?w2' = (ns, w3)"
            by (cases "avformat_new_stream ?w2'") auto
          show ?thesis
          proof (cases ns)
            case None
            then show ?thesis
              using vid fd by (simp add: create_streams_iteration_def Let_def dc d ec e ns)
          next
            case (Some out_stream)
            then have "\<not> (case avformat_new_stream_q ?w2' of None # _ \<Rightarrow> True | _ \<Rightarrow> False)"
              using avformat_new_stream_fails [of ?w2'] ns by auto
            then have "case avcodec_parameters_from_context_q w of
                (r, _) # _ \<Rightarrow> r \<noteq> 0 | [] \<Rightarrow> False"
              using assms vid unfolding q by (simp add: output_setup_fails_def)
            moreover have "avcodec_parameters_from_context_q w3 =
                avcodec_parameters_from_context_q w"
              using avformat_new_stream_keeps(6) [of ?w2'] unfolding ns snd_conv q by simp
            ultimately have "fst (avcodec_parameters_from_context w3 out_stream outcc) \<noteq> 0"
              by (intro avcodec_parameters_from_context_fails) simp
            then show ?thesis
              using vid fd
              by (simp add: create_streams_iteration_def Let_def dc d ec e ns Some split_beta)
          qed
        qed
      qed
    qed
  qed
qed

text \<open>
  C6: when \<open>create_streams\<close> starts on arrays of null pointers, has processed the
  streams before stream \<open>i\<close> without a failure, and at stream \<open>i\<close> the output
  stream cannot be created or the copy of the codec parameters fails, then
  \<open>create_streams\<close> returns \<open>-1\<close>, and when it returns every context allocated in the
  run (decode and encode) has been released exactly once, the released contexts are the
  allocated ones, and both arrays hold null pointers only.
\<close>

theorem create_streams_output_setup_failure:
  assumes "fresh_start infc w"
    and "i < length (streams infc)"
    and "create_streams_prefix w infc out_codec i = Some (stream_count, w1)"
    and "output_setup_fails (streams infc ! i) w1"
  shows "fst (create_streams w infc out_codec) = - 1 \<and>
         all_released (snd (create_streams w infc out_codec)) \<and>
         (\<forall>h \<in> set (allocated (trace (snd (create_streams w infc out_codec)))).
            count_list (released (trace (snd (create_streams w infc out_codec)))) h = 1)"
proof -
  have "create_streams_loop w infc out_codec 0 (- 1) =
      create_streams_loop w1 infc out_codec i stream_count"
    using assms(2) by (intro create_streams_loop_prefix [OF assms(3)]) simp
  moreover have "\<not> fst (create_streams_loop w1 infc out_codec i stream_count)"
    using create_streams_iteration_fails [OF assms(4), of out_codec stream_count] assms(2)
    by (simp add: create_streams_loop.simps [of w1] split_beta split: bool.splits)
  ultimately have r: "fst (create_streams w infc out_codec) = - 1"
    by (simp add: create_streams_result)
  then have "all_released (snd (create_streams w infc out_codec))"
    using assms(1) by (intro create_streams_failure_released) simp_all
  then show ?thesis
    using r all_released_once by blast
qed

definition w_c6 :: world where
  "w_c6 = idle_world\<lparr>
     avcodec_find_decoder_tab := (\<lambda>cid. if cid = 27 then Some 27 else None),
     avformat_new_stream_q := [Some blank_stream, None],
     out_stream_indices := [7, 7],
     in_codec_contexts := [None, None],
     out_codec_contexts := [None, None]\<rparr>"

definition infc_c6 :: AVFormatContext where
  "infc_c6 = \<lparr>streams = [video_stream, audio_stream]\<rparr>"

theorem create_streams_output_setup_failure_witness:
  "fresh_start infc_c6 w_c6 \<and> (1 :: nat) < length (streams infc_c6) \<and>
   (\<exists>c w1. create_streams_prefix w_c6 infc_c6 5 1 = Some (c, w1) \<and>
      output_setup_fails (streams infc_c6 ! 1) w1) \<and>
   fst (create_streams w_c6 infc_c6 5) = - 1 \<and>
   allocated (trace (snd (create_streams w_c6 infc_c6 5))) = [0, 1] \<and>
   released (trace (snd (create_streams w_c6 infc_c6 5))) = [0, 1] \<and>
   all_released (snd (create_streams w_c6 infc_c6 5))"
proof -
  let ?p = "create_streams_iteration w_c6 infc_c6 5 0 (- 1)"
  have h: "fresh_start infc_c6 w_c6" "(1 :: nat) < length (streams infc_c6)"
    by (simp_all add: fresh_start_def w_c6_def infc_c6_def idle_world_def)
  have ok: "fst ?p"
    by (simp add: w_c6_def infc_c6_def idle_world_def video_stream_def setup_defs)
  then have p: "create_streams_prefix w_c6 infc_c6 5 1 = Some (fst (snd ?p), snd (snd ?p))"
    unfolding One_nat_def by (cases ?p) auto
  have f: "output_setup_fails (streams infc_c6 ! 1) (snd (snd ?p))"
    by (simp add: output_setup_fails_def kept_def w_c6_def infc_c6_def idle_world_def
        video_stream_def audio_stream_def setup_defs)
  have t: "allocated (trace (snd (create_streams w_c6 infc_c6 5))) = [0, 1]"
    "released (trace (snd (create_streams w_c6 infc_c6 5))) = [0, 1]"
    by (simp_all add: w_c6_def infc_c6_def idle_world_def audio_stream_def video_stream_def
        setup_defs)
  have e: "\<exists>c w1. create_streams_prefix w_c6 infc_c6 5 1 = Some (c, w1) \<and>
      output_setup_fails (streams infc_c6 ! 1) w1"
    using p f by blast
  show ?thesis
    using create_streams_output_setup_failure [OF h p f] h e t by blast
qed

subsection \<open>C10: a video stream without a decoder\<close>

lemma create_streams_iteration_decoders:
  "avcodec_find_decoder_tab (snd (snd (create_streams_iteration w infc oc i c))) =
     avcodec_find_decoder_tab w"
  by (simp add: create_streams_iteration_def Let_def split_beta setup_keeps
      create_decode_context_keeps create_encode_context_keeps split: option.splits)

lemma create_streams_loop_no_decoder:
  "j \<le> i \<Longrightarrow> i < length (streams infc) \<Longrightarrow>
   codec_type (codecpar (streams infc ! i)) = AVMEDIA_TYPE_VIDEO \<Longrightarrow>
   avcodec_find_decoder_tab w (codec_id (codecpar (streams infc ! i))) = None \<Longrightarrow>
   \<not> fst (create_streams_loop w infc oc j c)"
proof (induction w infc oc j c rule: create_streams_loop.induct)
  case (1 w infc out_codec j stream_count)
  have j: "j < length (streams infc)" using "1.prems"(1,2) by simp
  obtain k c' w1 where it: "create_streams_iteration w infc out_codec j stream_count = (k, c', w1)"
    by (cases "create_streams_iteration w infc out_codec j stream_count") auto
  show ?case
  proof (cases k)
    case False
    then show ?thesis using j by (simp add: create_streams_loop.simps [of w] it)
  next
    case True
    have "j \<noteq> i"
    proof
      assume "j = i"
      then have "\<not> k"
        using it "1.prems"(3,4)
        by (simp add: create_streams_iteration_def Let_def avcodec_find_decoder_def)
      then show False using True by simp
    qed
    then have le: "Suc j \<le> i" using "1.prems"(1) by simp
    have tab: "avcodec_find_decoder_tab w1 (codec_id (codecpar (streams infc ! i))) = None"
      using create_streams_iteration_decoders [of w infc out_codec j stream_count] "1.prems"(4)
      by (simp add: it)
    have "\<not> fst (create_streams_loop w1 infc out_codec (Suc j) c')"
      using True
      by (intro "1.IH" [OF j it [symmetric] _ refl le "1.prems"(2,3) tab]) simp
    then show ?thesis using j True by (simp add: create_streams_loop.simps [of w] it)
  qed
qed

text \<open>
  C10: when create_streams starts on arrays of null pointers and some video stream of the
  input has a codec id for which \<open>avcodec_find_decoder\<close> finds no decoder,
  \<open>create_streams\<close> returns \<open>-1\<close>, and when it returns every context it allocated
  (for that stream or an earlier one) has been released exactly once, the released
  contexts are the allocated ones, and both arrays hold null pointers only.
\<close>

theorem create_streams_without_decoder:
  assumes "fresh_start infc w"
    and "i < length (streams infc)"
    and "codec_type (codecpar (streams infc ! i)) = AVMEDIA_TYPE_VIDEO"
    and "avcodec_find_decoder w (codec_id (codecpar (streams infc ! i))) = None"
  shows "fst (create_streams w infc out_codec) = - 1 \<and>
         all_released (snd (create_streams w infc out_codec)) \<and>
         (\<forall>h \<in> set (allocated (trace (snd (create_streams w infc out_codec)))).
            count_list (released (trace (snd (create_streams w infc out_codec)))) h = 1)"
proof -
  have "\<not> fst (create_streams_loop w infc out_codec 0 (- 1))"
    using assms(2,3,4)
    by (intro create_streams_loop_no_decoder [of 0 i]) (simp_all add: avcodec_find_decoder_def)
  then have r: "fst (create_streams w infc out_codec) = - 1"
    by (simp add: create_streams_result)
  then have "all_released (snd (create_streams w infc out_codec))"
    using assms(1) by (intro create_streams_failure_released) simp_all
  then show ?thesis
    using r all_released_once by blast
qed

definition w_c10 :: world where
  "w_c10 = idle_world\<lparr>
     avcodec_find_decoder_tab := (\<lambda>cid. if cid = 27 then Some 27 else None),
     out_stream_indices := [7, 7],
     in_codec_contexts := [None, None],
     out_codec_contexts := [None, None]\<rparr>"

definition exotic_stream :: AVStream where
  "exotic_stream = \<lparr>codecpar = \<lparr>codec_type = AVMEDIA_TYPE_VIDEO, codec_id = 99\<rparr>,
     st_time_base = (1, 25)\<rparr>"

definition infc_c10 :: AVFormatContext where
  "infc_c10 = \<lparr>streams = [video_stream, exotic_stream]\<rparr>"

theorem create_streams_without_decoder_witness:
  "fresh_start infc_c10 w_c10 \<and> (1 :: nat) < length (streams infc_c10) \<and>
   codec_type (codecpar (streams infc_c10 ! 1)) = AVMEDIA_TYPE_VIDEO \<and>
   avcodec_find_decoder w_c10 (codec_id (codecpar (streams infc_c10 ! 1))) = None \<and>
   fst (create_streams w_c10 infc_c10 5) = - 1 \<and>
   allocated (trace (snd (create_streams w_c10 infc_c10 5))) = [0, 1] \<and>
   released (trace (snd (create_streams w_c10 infc_c10 5))) = [0, 1] \<and>
   all_released (snd (create_streams w_c10 infc_c10 5))"
proof -
  have h: "fresh_start infc_c10 w_c10" "(1 :: nat) < length (streams infc_c10)"
    "codec_type (codecpar (streams infc_c10 ! 1)) = AVMEDIA_TYPE_VIDEO"
    "avcodec_find_decoder w_c10 (codec_id (codecpar (streams infc_c10 ! 1))) = None"
    by (simp_all add: fresh_start_def w_c10_def infc_c10_def idle_world_def exotic_stream_def
        avcodec_find_decoder_def)
  have t: "allocated (trace (snd (create_streams w_c10 infc_c10 5))) = [0, 1]"
    "released (trace (snd (create_streams w_c10 infc_c10 5))) = [0, 1]"
    by (simp_all add: w_c10_def infc_c10_def idle_world_def exotic_stream_def video_stream_def
        setup_defs)
  show ?thesis
    using create_streams_without_decoder [OF h, of 5] h t by simp
qed

end
